theory Spec2Isabelle
  imports Main
begin

section \<open>The migration checker: data and collaborators\<close>

text \<open>
  The model follows \<^verbatim>\<open>src/action/check_alembic_migration.py\<close>. Everything the class
  \<^verbatim>\<open>AlembicMigrationChecker\<close> does itself is a definition below: the two lazily filled
  properties, the three queries, the \<^verbatim>\<open>try\<close>/\<^verbatim>\<open>except\<close> blocks, every \<^verbatim>\<open>print\<close> and
  every \<^verbatim>\<open>sys.exit\<close>. What the class calls but does not contain (Alembic's
  \<^verbatim>\<open>Config.set_main_option\<close> and \<^verbatim>\<open>ScriptDirectory\<close>, SQLAlchemy's engine,
  \<^verbatim>\<open>os.path.exists\<close>) is a field of a record of collaborators; a call to one of them
  either returns a value or raises.
\<close>

text \<open>
  The exceptions the source names: the two Alembic errors of the \<^verbatim>\<open>except\<close> clause of
  \<^verbatim>\<open>find_pending_migrations\<close>, the \<^verbatim>\<open>ValueError\<close> of the constructor, the \<^verbatim>\<open>TypeError\<close>
  of subscripting \<^verbatim>\<open>None\<close>, and any other exception a collaborator may raise, named
  by its text (the configuration parser's own \<^verbatim>\<open>ValueError\<close> is one of these). The
  \<^verbatim>\<open>ValueError\<close> of the constructor carries one of the error messages
  \<^verbatim>\<open>_validate_db_inputs\<close> can return, listed in the order of its checks; the last of
  them formats the exception it caught.
\<close>

datatype exn =
    RangeNotAncestorError
  | ResolutionError
  | ValueError validation_error
  | TypeError
  | OtherException string
and validation_error =
    Database_name_required
  | Invalid_database_type
  | Host_port_user_password_required
  | Migrations_path_does_not_exist "string option"
  | Error_during_validation exn

text \<open>An Alembic \<^verbatim>\<open>Script\<close>, of which the source reads the attribute \<^verbatim>\<open>revision\<close> only.\<close>

record script =
  revision :: string

text \<open>
  The in-memory \<^verbatim>\<open>Config\<close>, with the two main options the source sets; an option not
  set yet is \<open>None\<close>. \<^verbatim>\<open>Config()\<close> has neither.
\<close>

record config =
  script_location :: "string option"
  sqlalchemy_url :: "string option"

definition Config :: config where
  "Config = \<lparr>script_location = None, sqlalchemy_url = None\<rparr>"

text \<open>
  A \<^verbatim>\<open>ScriptDirectory\<close>, seen through the two methods the source calls.
  \<^verbatim>\<open>iterate_revisions\<close> gives an iterator; the source consumes it to the end inside the
  same \<^verbatim>\<open>try\<close> block, so the model has the outcome of the whole iteration: the items
  yielded, or the exception raised by the call or while iterating.
\<close>

record script_directory =
  get_revision :: "string \<Rightarrow> exn + script option"
  iterate_revisions :: "string \<Rightarrow> string \<Rightarrow> exn + script option list"

datatype engine = Engine string

text \<open>
  The attributes of an \<^verbatim>\<open>AlembicMigrationChecker\<close>; \<^verbatim>\<open>p_\<close> stands for the leading
  underscore. The constructor assigns the first seven before it validates anything, so they
  are a record of their own, which the checker extends. An argument is \<^verbatim>\<open>None\<close> or a
  string.
\<close>

record db_inputs =
  db_type :: "string option"
  db_host :: "string option"
  db_port :: "string option"
  db_user :: "string option"
  db_password :: "string option"
  db_name :: "string option"
  migrations_path :: "string option"

record checker = db_inputs +
  db_url :: string
  engine :: engine
  p_alembic_cfg :: "config option"
  p_script_directory :: "script_directory option"

text \<open>
  The collaborators. \<^verbatim>\<open>set_main_option\<close> gives the \<^verbatim>\<open>Config\<close> with the option set, or
  raises and leaves the \<^verbatim>\<open>Config\<close> as it was (the configuration parser refuses a value
  that is not a string, and one with a stray percent sign). \<^verbatim>\<open>fetch_version_num\<close>
  stands for reflecting the metadata, selecting \<^verbatim>\<open>version_num\<close> from
  \<^verbatim>\<open>alembic_version\<close> and \<^verbatim>\<open>fetchone()\<close>: an exception, no row, or a row whose column
  is a string or NULL.
\<close>

record world =
  os_path_exists :: "string option \<Rightarrow> exn + bool"
  create_engine :: "string \<Rightarrow> exn + engine"
  engine_connect :: "engine \<Rightarrow> exn + unit"
  set_main_option :: "config \<Rightarrow> string \<Rightarrow> string option \<Rightarrow> exn + config"
  from_config :: "config \<Rightarrow> exn + script_directory"
  fetch_version_num :: "engine \<Rightarrow> exn + string option option"

text \<open>Each \<^verbatim>\<open>print\<close> of the source, with the values it formats.\<close>

datatype message =
    Msg_initializing
  | Msg_migrations_path "string option"
  | Msg_creating_engine
  | Msg_engine_created
  | Msg_engine_connected
  | Msg_engine_error exn
  | Msg_retrieving_latest
  | Msg_latest_found
  | Msg_no_head_revision
  | Msg_fetching_db_version
  | Msg_db_version_fetched
  | Msg_db_version_error exn
  | Msg_error exn
  | Msg_starting_evaluation
  | Msg_no_head_check_script
  | Msg_no_db_version
  | Msg_latest_version string
  | Msg_current_version string
  | Msg_success_up_to_date
  | Msg_revisions_do_not_match
  | Msg_success_one_pending string string
  | Msg_success_many_pending string nat
  | Msg_version_mismatch string

text \<open>What a run does that can be observed: it prints, and it calls collaborators.\<close>

datatype event =
    Print message
  | Call_os_path_exists "string option"
  | Call_create_engine string
  | Call_engine_connect
  | Call_set_main_option string "string option"
  | Call_from_config config
  | Call_get_revision string
  | Call_iterate_revisions string string
  | Call_fetch_version_num

text \<open>How a piece of code ends: it returns, it calls \<^verbatim>\<open>sys.exit\<close>, or an exception leaves it.\<close>

datatype 'a result = Return 'a | Exit int | Raise exn

text \<open>
  A piece of code runs on the object it belongs to: it ends in some way, leaves the object
  in some state, and has printed and called in some order.
\<close>

type_synonym ('s, 'a) run = "'s \<Rightarrow> 'a result \<times> 's \<times> event list"

type_synonym 'a action = "(checker, 'a) run"

definition ret :: "'a \<Rightarrow> ('s, 'a) run" where
  "ret x = (\<lambda>c. (Return x, c, []))"

definition bind :: "('s, 'a) run \<Rightarrow> ('a \<Rightarrow> ('s, 'b) run) \<Rightarrow> ('s, 'b) run" where
  "bind f g = (\<lambda>c. case f c of
       (Return x, c', es) \<Rightarrow> (case g x c' of (r, c'', es') \<Rightarrow> (r, c'', es @ es'))
     | (Exit n, c', es) \<Rightarrow> (Exit n, c', es)
     | (Raise e, c', es) \<Rightarrow> (Raise e, c', es))"

definition print :: "message \<Rightarrow> ('s, unit) run" where
  "print m = (\<lambda>c. (Return (), c, [Print m]))"

definition sys_exit :: "int \<Rightarrow> ('s, 'a) run" where
  "sys_exit n = (\<lambda>c. (Exit n, c, []))"

definition raise :: "exn \<Rightarrow> ('s, 'a) run" where
  "raise e = (\<lambda>c. (Raise e, c, []))"

text \<open>A call to a collaborator: the call is recorded, its exception (if any) is raised.\<close>

definition call :: "event \<Rightarrow> exn + 'a \<Rightarrow> ('s, 'a) run" where
  "call ev r = (\<lambda>c. (case r of Inl e \<Rightarrow> Raise e | Inr v \<Rightarrow> Return v, c, [ev]))"

text \<open>
  \<^verbatim>\<open>try: body except <catches> as ex: handler\<close>. What the body did to the checker and what
  it printed before raising stays done; \<^verbatim>\<open>sys.exit\<close> passes through.
\<close>

definition try_except ::
  "('s, 'a) run \<Rightarrow> (exn \<Rightarrow> bool) \<Rightarrow> (exn \<Rightarrow> ('s, 'a) run) \<Rightarrow> ('s, 'a) run" where
  "try_except body catches handler = (\<lambda>c. case body c of
       (Raise e, c', es) \<Rightarrow>
         (if catches e then (case handler e c' of (r, c'', es') \<Rightarrow> (r, c'', es @ es'))
          else (Raise e, c', es))
     | (Return x, c', es) \<Rightarrow> (Return x, c', es)
     | (Exit n, c', es) \<Rightarrow> (Exit n, c', es))"

section \<open>The constructor\<close>

text \<open>Python's truth value of an argument, and its \<^verbatim>\<open>str\<close> as an f-string formats it.\<close>

definition truthy :: "string option \<Rightarrow> bool" where
  "truthy v = (case v of None \<Rightarrow> False | Some s \<Rightarrow> s \<noteq> [])"

definition str :: "string option \<Rightarrow> string" where
  "str v = (case v of None \<Rightarrow> ''None'' | Some s \<Rightarrow> s)"

text \<open>
  \<^verbatim>\<open>_validate_db_inputs\<close>: the first failing check gives the message. Of what stands in
  its \<^verbatim>\<open>try\<close> block only \<^verbatim>\<open>os.path.exists\<close> is a call that can raise, and
  \<^verbatim>\<open>except Exception\<close> turns that into a message as well.
\<close>

definition validate_db_inputs :: "world \<Rightarrow> ('a db_inputs_scheme, validation_error option) run" where
  "validate_db_inputs w = (\<lambda>self.
     if \<not> truthy (db_name self) then ret (Some Database_name_required) self
     else if db_type self \<notin> {Some ''postgresql'', Some ''mysql'', Some ''sqlite''}
       then ret (Some Invalid_database_type) self
     else if db_type self \<noteq> Some ''sqlite'' \<and>
             (\<not> truthy (db_host self) \<or> \<not> truthy (db_port self) \<or>
              \<not> truthy (db_user self) \<or> \<not> truthy (db_password self))
       then ret (Some Host_port_user_password_required) self
     else try_except
       (bind (call (Call_os_path_exists (migrations_path self))
                (os_path_exists w (migrations_path self))) (\<lambda>exists.
          if \<not> exists then
            bind (print (Msg_migrations_path (migrations_path self))) (\<lambda>_.
            ret (Some (Migrations_path_does_not_exist (migrations_path self))))
          else ret None))
       (\<lambda>e. True)
       (\<lambda>e. ret (Some (Error_during_validation e))) self)"

definition get_database_url :: "'a db_inputs_scheme \<Rightarrow> string" where
  "get_database_url self =
     (if db_type self = Some ''sqlite'' then ''sqlite:///'' @ str (db_name self)
      else str (db_type self) @ ''://'' @ str (db_user self) @ '':'' @ str (db_password self)
           @ ''@'' @ str (db_host self) @ '':'' @ str (db_port self) @ ''/'' @ str (db_name self))"

definition get_database_engine :: "world \<Rightarrow> string \<Rightarrow> ('s, engine) run" where
  "get_database_engine w url =
     bind (print Msg_creating_engine) (\<lambda>_.
     try_except
       (bind (call (Call_create_engine url) (create_engine w url)) (\<lambda>engine.
        bind (print Msg_engine_created) (\<lambda>_.
        bind (call Call_engine_connect (engine_connect w engine)) (\<lambda>_.
        bind (print Msg_engine_connected) (\<lambda>_.
        ret engine)))))
       (\<lambda>e. True)
       (\<lambda>e. bind (print (Msg_engine_error e)) (\<lambda>_. sys_exit 1)))"

text \<open>
  \<^verbatim>\<open>__init__\<close>: the result is the new checker, unless the constructor raised or exited.
\<close>

definition init :: "world \<Rightarrow> string option \<Rightarrow> string option \<Rightarrow> string option \<Rightarrow> string option
    \<Rightarrow> string option \<Rightarrow> string option \<Rightarrow> string option \<Rightarrow> string option
    \<Rightarrow> checker result \<times> event list" where
  "init w url type host port user password name path =
     (let self = \<lparr>db_type = type, db_host = host, db_port = port, db_user = user,
                   db_password = password, db_name = name, migrations_path = path\<rparr>;
          validated =
            bind (validate_db_inputs w) (\<lambda>validation_error.
              case validation_error of
                Some err \<Rightarrow> raise (ValueError err)
              | None \<Rightarrow> ret (get_database_url self));
          run =
            bind (print Msg_initializing) (\<lambda>_.
            bind (case url of
                    Some u \<Rightarrow> if u \<noteq> [] then ret u else validated
                  | None \<Rightarrow> validated) (\<lambda>the_url.
            bind (get_database_engine w the_url) (\<lambda>the_engine.
            ret \<lparr>db_type = type, db_host = host, db_port = port, db_user = user,
                 db_password = password, db_name = name, migrations_path = path,
                 db_url = the_url, engine = the_engine,
                 p_alembic_cfg = None, p_script_directory = None\<rparr>)))
      in case run self of (r, _, es) \<Rightarrow> (r, es))"

section \<open>The methods of the checker\<close>

text \<open>
  Property \<^verbatim>\<open>alembic_config\<close>: on first access a new \<^verbatim>\<open>Config\<close> is assigned to
  \<^verbatim>\<open>_alembic_cfg\<close> and then given its two options, in place. The assignment comes first:
  when setting an option raises, the \<^verbatim>\<open>Config\<close> stays in \<^verbatim>\<open>_alembic_cfg\<close> with the options
  it has got so far, and later accesses return it as it is.
\<close>

definition alembic_config :: "world \<Rightarrow> config action" where
  "alembic_config w = (\<lambda>c. case p_alembic_cfg c of
       Some cfg \<Rightarrow> (Return cfg, c, [])
     | None \<Rightarrow>
         (let location = Call_set_main_option ''script_location'' (migrations_path c);
              url = Call_set_main_option ''sqlalchemy.url'' (Some (db_url c))
          in case set_main_option w Config ''script_location'' (migrations_path c) of
               Inl e \<Rightarrow> (Raise e, c\<lparr>p_alembic_cfg := Some Config\<rparr>, [location])
             | Inr cfg1 \<Rightarrow>
                 (case set_main_option w cfg1 ''sqlalchemy.url'' (Some (db_url c)) of
                    Inl e \<Rightarrow> (Raise e, c\<lparr>p_alembic_cfg := Some cfg1\<rparr>, [location, url])
                  | Inr cfg2 \<Rightarrow> (Return cfg2, c\<lparr>p_alembic_cfg := Some cfg2\<rparr>, [location, url]))))"

text \<open>Property \<^verbatim>\<open>script_directory\<close>: loaded from the configuration on first access and kept.\<close>

definition script_directory :: "world \<Rightarrow> script_directory action" where
  "script_directory w = (\<lambda>c. case p_script_directory c of
       Some sd \<Rightarrow> (Return sd, c, [])
     | None \<Rightarrow>
         bind (alembic_config w) (\<lambda>cfg.
         bind (call (Call_from_config cfg) (from_config w cfg)) (\<lambda>sd.
         (\<lambda>c'. (Return sd, c'\<lparr>p_script_directory := Some sd\<rparr>, [])))) c)"

definition get_latest_migration_version :: "world \<Rightarrow> string option action" where
  "get_latest_migration_version w =
     bind (print Msg_retrieving_latest) (\<lambda>_.
     bind (script_directory w) (\<lambda>sd.
     bind (call (Call_get_revision ''head'') (get_revision sd ''head'')) (\<lambda>head_revision.
       case head_revision of
         Some r \<Rightarrow> bind (print Msg_latest_found) (\<lambda>_. ret (Some (revision r)))
       | None \<Rightarrow> bind (print Msg_no_head_revision) (\<lambda>_. ret None))))"

definition get_db_version :: "world \<Rightarrow> string option action" where
  "get_db_version w =
     bind (print Msg_fetching_db_version) (\<lambda>_.
     try_except
       (\<lambda>c. bind (call Call_fetch_version_num (fetch_version_num w (engine c))) (\<lambda>row.
          case row of
            None \<Rightarrow> raise TypeError
          | Some db_version \<Rightarrow> bind (print Msg_db_version_fetched) (\<lambda>_. ret db_version)) c)
       (\<lambda>e. True)
       (\<lambda>e. bind (print (Msg_db_version_error e)) (\<lambda>_. sys_exit 1)))"

definition find_pending_migrations :: "world \<Rightarrow> string \<Rightarrow> string \<Rightarrow> (bool \<times> nat) action" where
  "find_pending_migrations w latest_migration db_version =
     try_except
       (bind (script_directory w) (\<lambda>sd.
        bind (call (Call_iterate_revisions latest_migration db_version)
                (iterate_revisions sd latest_migration db_version)) (\<lambda>iterator.
        let pending_migrations_count = [revision r. Some r \<leftarrow> iterator]
        in ret (True, length pending_migrations_count))))
       (\<lambda>ex. ex = RangeNotAncestorError \<or> ex = ResolutionError)
       (\<lambda>ex. bind (print (Msg_error ex)) (\<lambda>_. ret (False, 0)))"

definition evaluate_migration_alignment :: "world \<Rightarrow> unit action" where
  "evaluate_migration_alignment w =
     bind (print Msg_starting_evaluation) (\<lambda>_.
     bind (get_latest_migration_version w) (\<lambda>latest_migration_version.
       case latest_migration_version of
         None \<Rightarrow> bind (print Msg_no_head_check_script) (\<lambda>_. sys_exit 1)
       | Some latest \<Rightarrow>
     bind (get_db_version w) (\<lambda>db_version.
       case db_version of
         None \<Rightarrow> bind (print Msg_no_db_version) (\<lambda>_. sys_exit 1)
       | Some db \<Rightarrow>
     bind (print (Msg_latest_version latest)) (\<lambda>_.
     bind (print (Msg_current_version db)) (\<lambda>_.
       if latest = db then bind (print Msg_success_up_to_date) (\<lambda>_. sys_exit 0)
       else
     bind (print Msg_revisions_do_not_match) (\<lambda>_.
     bind (find_pending_migrations w latest db) (\<lambda>(found_revision, pending_migrations_count).
       if found_revision then
         bind (if pending_migrations_count = 1
               then print (Msg_success_one_pending db latest)
               else print (Msg_success_many_pending db pending_migrations_count)) (\<lambda>_.
         sys_exit 0)
       else bind (print (Msg_version_mismatch db)) (\<lambda>_. sys_exit 1))))))))"

section \<open>The outcome in the vocabulary of the specification\<close>

text \<open>
  The specification names four ways a check can end. The source has no such value: it
  prints one of its final messages and exits. The classification of a run is read off the
  last thing the run did.
\<close>

datatype reconciliation = UpToDate | PendingCount nat | Unreconcilable | FatalPrecondition

fun classify_message :: "message \<Rightarrow> reconciliation option" where
  "classify_message Msg_success_up_to_date = Some UpToDate"
| "classify_message (Msg_success_one_pending db latest) = Some (PendingCount 1)"
| "classify_message (Msg_success_many_pending db n) = Some (PendingCount n)"
| "classify_message (Msg_version_mismatch db) = Some Unreconcilable"
| "classify_message Msg_no_head_check_script = Some FatalPrecondition"
| "classify_message Msg_no_db_version = Some FatalPrecondition"
| "classify_message (Msg_db_version_error e) = Some FatalPrecondition"
| "classify_message _ = None"

fun classification :: "event list \<Rightarrow> reconciliation option" where
  "classification [] = None"
| "classification [Print m] = classify_message m"
| "classification [_] = None"
| "classification (_ # e # es) = classification (e # es)"

text \<open>The events that are a graph traversal: the calls of \<^verbatim>\<open>iterate_revisions\<close>.\<close>

fun is_traversal :: "event \<Rightarrow> bool" where
  "is_traversal (Call_iterate_revisions upper lower) = True"
| "is_traversal _ = False"

text \<open>The events of building the configuration and loading the script directory.\<close>

fun is_configuration :: "event \<Rightarrow> bool" where
  "is_configuration (Call_set_main_option name v) = True"
| "is_configuration (Call_from_config cfg) = True"
| "is_configuration _ = False"

section \<open>The revision graph accessor of the specification\<close>

text \<open>
  Modelled from the spec: the graph traversal is Alembic's
  \<^verbatim>\<open>ScriptDirectory.iterate_revisions\<close> and head resolution is Alembic's
  \<^verbatim>\<open>ScriptDirectory.get_revision\<close>; neither is in the source file, which only calls them.
  The definitions of this section follow sections 3 and 4.1 of the specification: a
  revision has an identifier and predecessor references; \<^verbatim>\<open>resolveHead\<close> gives the
  designated latest revision and fails on a graph without revisions; \<^verbatim>\<open>traverseBetween\<close>
  walks from \<^verbatim>\<open>to\<close> back along predecessor edges until it reaches \<^verbatim>\<open>from\<close>, lists the
  revisions on the way from the one next to \<^verbatim>\<open>from\<close> through \<^verbatim>\<open>to\<close>, expands no revision
  twice, and fails when \<^verbatim>\<open>from\<close> is not in the graph or no path leads to it.
\<close>

record revision_node =
  revision_id :: string
  predecessors :: "string list"

record graph =
  revisions :: "revision_node list"
  designated_head :: string

definition lookup :: "revision_node list \<Rightarrow> string \<Rightarrow> revision_node option" where
  "lookup rs x = find (\<lambda>r. revision_id r = x) rs"

definition predecessors_of :: "revision_node list \<Rightarrow> string \<Rightarrow> string list" where
  "predecessors_of rs x = (case lookup rs x of None \<Rightarrow> [] | Some r \<Rightarrow> predecessors r)"

datatype traversal = Sequence "string list" | Unreachable

text \<open>The number of revisions of the graph not yet expanded: what the walk uses up.\<close>

definition unvisited :: "revision_node list \<Rightarrow> string list \<Rightarrow> nat" where
  "unvisited rs visited = length (filter (\<lambda>r. revision_id r \<notin> set visited) rs)"

text \<open>
  Modelled from the spec: the walk along predecessor edges that \<^verbatim>\<open>traverseBetween\<close> is
  (Alembic's own traversal is not in the source file). It keeps a stack of revisions to
  look at, each with the path that led to it, and the list of the revisions it has
  expanded, so that none is expanded twice. It stops as soon as it takes \<^verbatim>\<open>from\<close> off the
  stack. Beside its answer it reports the revisions it expanded and the number of
  revisions it took off the stack.
\<close>

function walk :: "revision_node list \<Rightarrow> string \<Rightarrow> (string \<times> string list) list \<Rightarrow> string list \<Rightarrow> nat
    \<Rightarrow> traversal \<times> string list \<times> nat" where
  "walk rs from [] visited steps = (Unreachable, visited, steps)"
| "walk rs from ((x, path) # stack) visited steps =
     (if x = from then (Sequence path, visited, Suc steps)
      else if x \<in> set visited \<or> lookup rs x = None then walk rs from stack visited (Suc steps)
      else walk rs from (map (\<lambda>p. (p, x # path)) (predecessors_of rs x) @ stack)
             (x # visited) (Suc steps))"
  by pat_completeness auto

termination
proof -
  have less: "unvisited rs (x # visited) < unvisited rs visited"
    if "lookup rs x \<noteq> None" and "x \<notin> set visited" for rs x visited
  proof -
    from that obtain r where r: "r \<in> set rs" "revision_id r = x"
      by (auto simp: lookup_def find_None_iff)
    let ?P = "\<lambda>r. revision_id r \<notin> set (x # visited)"
    let ?Q = "\<lambda>r. revision_id r \<notin> set visited"
    have "filter ?P rs = filter ?P (filter ?Q rs)"
      by (simp cong: filter_cong) (rule filter_cong, auto)
    moreover have "length (filter ?P (filter ?Q rs)) < length (filter ?Q rs)"
      by (rule length_filter_less[of r]) (use r that in auto)
    ultimately show ?thesis
      by (simp add: unvisited_def)
  qed
  show ?thesis
    by (relation "measures [\<lambda>(rs, origin, stack, visited, steps). unvisited rs visited,
                            \<lambda>(rs, origin, stack, visited, steps). length stack]")
       (auto simp: less)
qed

text \<open>
  Modelled from the spec: \<^verbatim>\<open>traverseBetween(from, to)\<close> of section 4.1, which stands for
  Alembic's \<^verbatim>\<open>iterate_revisions(to, from)\<close>. It fails when \<^verbatim>\<open>from\<close> is not a revision of
  the graph, and otherwise walks back from \<^verbatim>\<open>to\<close>.
\<close>

definition traverseBetween :: "graph \<Rightarrow> string \<Rightarrow> string \<Rightarrow> traversal" where
  "traverseBetween g from to =
     (if lookup (revisions g) from = None then Unreachable
      else fst (walk (revisions g) from [(to, [])] [] 0))"

text \<open>
  Modelled from the spec: \<^verbatim>\<open>resolveHead\<close> of section 4.1, which stands for Alembic's
  \<^verbatim>\<open>get_revision("head")\<close>: the revision the graph source designates as latest, and no
  revision when the graph has none.
\<close>

definition resolveHead :: "graph \<Rightarrow> string option" where
  "resolveHead g = (if revisions g = [] then None else Some (designated_head g))"

text \<open>
  Modelled from the spec: the accessor as the \<^verbatim>\<open>ScriptDirectory\<close> the source queries.
  \<^verbatim>\<open>Unreachable\<close> becomes one of the two errors the source catches.
\<close>

definition graph_directory :: "graph \<Rightarrow> script_directory" where
  "graph_directory g =
     \<lparr>get_revision = (\<lambda>name.
        if name = ''head'' then Inr (map_option (\<lambda>i. \<lparr>revision = i\<rparr>) (resolveHead g))
        else Inr (map_option (\<lambda>r. \<lparr>revision = revision_id r\<rparr>) (lookup (revisions g) name))),
      iterate_revisions = (\<lambda>upper lower.
        case traverseBetween g lower upper of
          Sequence path \<Rightarrow> Inr (map (\<lambda>i. Some \<lparr>revision = i\<rparr>) path)
        | Unreachable \<Rightarrow>
            Inl (if lookup (revisions g) lower = None then ResolutionError
                 else RangeNotAncestorError))\<rparr>"

text \<open>
  What the walk reports beside its answer, and the predecessor references of the revisions
  it expanded: the edges it walked.
\<close>

definition expanded :: "traversal \<times> string list \<times> nat \<Rightarrow> string list" where
  "expanded t = fst (snd t)"

definition steps_taken :: "traversal \<times> string list \<times> nat \<Rightarrow> nat" where
  "steps_taken t = snd (snd t)"

definition edges_walked :: "revision_node list \<Rightarrow> string list \<Rightarrow> (string \<times> string) list" where
  "edges_walked rs xs = concat (map (\<lambda>x. map (Pair x) (predecessors_of rs x)) xs)"

text \<open>
  Modelled from the spec: the predecessor edges of a graph. A revision is an ancestor of
  another (glossary) when the reflexive transitive closure of the edges relates the latter
  to the former.
\<close>

definition predecessor_edges :: "revision_node list \<Rightarrow> (string \<times> string) set" where
  "predecessor_edges rs = {(x, p). p \<in> set (predecessors_of rs x)}"

text \<open>
  Modelled from the spec: a linear chain (section 8), the revisions in the order given, the
  first without predecessor, each other one with the one before it as its only
  predecessor, the last one the head.
\<close>

fun chain_after :: "string option \<Rightarrow> string list \<Rightarrow> revision_node list" where
  "chain_after prev [] = []"
| "chain_after prev (x # xs) =
     \<lparr>revision_id = x, predecessors = (case prev of None \<Rightarrow> [] | Some p \<Rightarrow> [p])\<rparr>
       # chain_after (Some x) xs"

definition linear_chain :: "string list \<Rightarrow> graph" where
  "linear_chain ids =
     \<lparr>revisions = chain_after None ids, designated_head = (if ids = [] then [] else last ids)\<rparr>"

section \<open>Reading a run, and the scenarios of the specification\<close>

definition outcome :: "'a result \<times> 's \<times> event list \<Rightarrow> 'a result" where
  "outcome t = fst t"

definition state_after :: "'a result \<times> 's \<times> event list \<Rightarrow> 's" where
  "state_after t = fst (snd t)"

definition events :: "'a result \<times> 's \<times> event list \<Rightarrow> event list" where
  "events t = snd (snd t)"

text \<open>The chain base, A, B, C with head C, and the graph where B and C both follow A.\<close>

definition scenario_chain :: graph where
  "scenario_chain =
     \<lparr>revisions = [\<lparr>revision_id = ''base'', predecessors = []\<rparr>,
                   \<lparr>revision_id = ''A'', predecessors = [''base'']\<rparr>,
                   \<lparr>revision_id = ''B'', predecessors = [''A'']\<rparr>,
                   \<lparr>revision_id = ''C'', predecessors = [''B'']\<rparr>],
      designated_head = ''C''\<rparr>"

definition scenario_branch :: graph where
  "scenario_branch =
     \<lparr>revisions = [\<lparr>revision_id = ''base'', predecessors = []\<rparr>,
                   \<lparr>revision_id = ''A'', predecessors = [''base'']\<rparr>,
                   \<lparr>revision_id = ''B'', predecessors = [''A'']\<rparr>,
                   \<lparr>revision_id = ''C'', predecessors = [''A'']\<rparr>],
      designated_head = ''B''\<rparr>"

text \<open>Two revisions that name each other as predecessor.\<close>

definition scenario_cycle :: graph where
  "scenario_cycle =
     \<lparr>revisions = [\<lparr>revision_id = ''A'', predecessors = [''B'']\<rparr>,
                   \<lparr>revision_id = ''B'', predecessors = [''A'']\<rparr>],
      designated_head = ''A''\<rparr>"

definition empty_graph :: graph where
  "empty_graph = \<lparr>revisions = [], designated_head = []\<rparr>"

text \<open>
  A world in which everything works that can: the migrations folder holds the graph \<open>g\<close>
  and the version table holds \<open>current\<close>. An option is refused when its value is
  \<^verbatim>\<open>None\<close> or holds a percent sign, and a script directory needs its location.
\<close>

definition scenario_world :: "graph \<Rightarrow> string \<Rightarrow> world" where
  "scenario_world g current =
     \<lparr>os_path_exists = (\<lambda>path. case path of None \<Rightarrow> Inl TypeError | Some p \<Rightarrow> Inr True),
      create_engine = (\<lambda>url. Inr (Engine url)),
      engine_connect = (\<lambda>e. Inr ()),
      set_main_option = (\<lambda>cfg name v.
        case v of
          None \<Rightarrow> Inl TypeError
        | Some s \<Rightarrow>
            if CHR ''%'' \<in> set s then Inl (OtherException ''ValueError: invalid interpolation syntax'')
            else if name = ''script_location'' then Inr (cfg\<lparr>script_location := Some s\<rparr>)
            else Inr (cfg\<lparr>sqlalchemy_url := Some s\<rparr>)),
      from_config = (\<lambda>cfg.
        case script_location cfg of
          None \<Rightarrow> Inl (OtherException ''CommandError: no script_location'')
        | Some location \<Rightarrow> Inr (graph_directory g)),
      fetch_version_num = (\<lambda>e. Inr (Some (Some current)))\<rparr>"

text \<open>A checker as the constructor leaves it, given a database URL.\<close>

definition scenario_checker :: checker where
  "scenario_checker =
     \<lparr>db_type = None, db_host = None, db_port = None, db_user = None, db_password = None,
      db_name = None, migrations_path = Some ''migrations'', db_url = ''sqlite:///app.db'',
      engine = Engine ''sqlite:///app.db'', p_alembic_cfg = None, p_script_directory = None\<rparr>"

section \<open>Facts about the building blocks\<close>

lemmas action_defs = ret_def bind_def print_def sys_exit_def raise_def call_def try_except_def

lemmas run_defs = outcome_def state_after_def events_def

lemmas scenario_defs = Config_def scenario_world_def scenario_checker_def scenario_chain_def
  scenario_branch_def scenario_cycle_def empty_graph_def graph_directory_def resolveHead_def traverseBetween_def
  lookup_def predecessors_of_def

lemma classification_append [simp]: "classification (es @ [e]) = classification [e]"
  by (induction es rule: classification.induct) auto

lemma classification_Cons [simp]: "es \<noteq> [] \<Longrightarrow> classification (e # es) = classification es"
  by (cases es) auto

lemma classification_skip [simp]: "classification (es @ e # es') = classification (e # es')"
  by (induction es) auto

text \<open>Building the configuration prints nothing, fetches nothing and traverses nothing.\<close>

lemma configuration_events:
  assumes "\<forall>e\<in>set es. is_configuration e"
  shows "filter is_traversal es = []"
    and "Call_fetch_version_num \<notin> set es"
    and "Print m \<notin> set es"
proof -
  have "\<not> is_traversal e" if "is_configuration e" for e
    using that by (cases e) auto
  with assms show "filter is_traversal es = []"
    by (auto simp: filter_empty_conv)
  from assms show "Call_fetch_version_num \<notin> set es" and "Print m \<notin> set es"
    by auto
qed

lemma classification_configuration:
  "\<forall>e\<in>set es. is_configuration e \<Longrightarrow> es \<noteq> [] \<Longrightarrow> classification es = None"
proof (induction es rule: classification.induct)
  case (2 m)
  then show ?case by simp
qed auto

lemma classification_before_configuration:
  "\<forall>e\<in>set es. is_configuration e \<Longrightarrow>
   classification (Print m # es) = (if es = [] then classify_message m else None)"
  by (cases "es = []") (simp_all add: classification_configuration)

text \<open>The property \<^verbatim>\<open>script_directory\<close>: what an access can do.\<close>

lemma script_directory_cached:
  "p_script_directory c = Some sd \<Longrightarrow> script_directory w c = (Return sd, c, [])"
  by (simp add: script_directory_def)

lemma script_directory_Return:
  assumes "outcome (script_directory w c) = Return sd"
  obtains c1 es1 where "script_directory w c = (Return sd, c1, es1)"
    and "engine c1 = engine c" and "p_script_directory c1 = Some sd"
    and "\<forall>e\<in>set es1. is_configuration e"
  using assms
  by (auto simp: run_defs script_directory_def alembic_config_def action_defs Let_def
      split: option.splits sum.splits)

lemma script_directory_Raise:
  assumes "outcome (script_directory w c) = Raise e"
  obtains c1 es1 where "script_directory w c = (Raise e, c1, es1)"
    and "\<forall>e\<in>set es1. is_configuration e"
  using assms
  by (auto simp: run_defs script_directory_def alembic_config_def action_defs Let_def
      split: option.splits sum.splits)

lemma script_directory_not_Exit: "outcome (script_directory w c) \<noteq> Exit n"
  by (auto simp: run_defs script_directory_def alembic_config_def action_defs Let_def
      split: option.splits sum.splits)

lemma scenario_script_directory:
  "outcome (script_directory (scenario_world g current) scenario_checker)
     = Return (graph_directory g)"
  by (simp add: run_defs script_directory_def alembic_config_def Config_def action_defs Let_def
        scenario_world_def scenario_checker_def)

lemmas method_defs = evaluate_migration_alignment_def get_latest_migration_version_def
  get_db_version_def find_pending_migrations_def script_directory_def alembic_config_def

text \<open>
  When the script directory is loaded, or the configuration is in place or gets built, a
  second access to the property gives what the first gave, and changes nothing more.
\<close>

lemma alembic_config_Return:
  assumes "outcome (alembic_config w c) = Return cfg"
  obtains es where "alembic_config w c = (Return cfg, c\<lparr>p_alembic_cfg := Some cfg\<rparr>, es)"
proof (cases "p_alembic_cfg c")
  case None
  with assms that show ?thesis
    by (auto simp: run_defs alembic_config_def Let_def split: sum.splits)
next
  case (Some cfg')
  with assms have "cfg' = cfg"
    by (simp add: run_defs alembic_config_def)
  with Some have "c\<lparr>p_alembic_cfg := Some cfg\<rparr> = c"
    by simp
  with Some \<open>cfg' = cfg\<close> that[of "[]"] show ?thesis
    by (simp add: alembic_config_def)
qed

lemma alembic_config_cached:
  "p_alembic_cfg c = Some cfg \<Longrightarrow> alembic_config w c = (Return cfg, c, [])"
  by (simp add: alembic_config_def)

lemma script_directory_again:
  assumes "p_script_directory c \<noteq> None \<or> (\<exists>cfg. outcome (alembic_config w c) = Return cfg)"
  shows "outcome (script_directory w (state_after (script_directory w c)))
           = outcome (script_directory w c)"
    and "state_after (script_directory w (state_after (script_directory w c)))
           = state_after (script_directory w c)"
proof -
  have "outcome (script_directory w (state_after (script_directory w c)))
           = outcome (script_directory w c)
      \<and> state_after (script_directory w (state_after (script_directory w c)))
           = state_after (script_directory w c)"
  proof (cases "p_script_directory c")
    case (Some sd)
    then show ?thesis
      by (simp add: script_directory_cached run_defs)
  next
    case None
    with assms obtain cfg where "outcome (alembic_config w c) = Return cfg"
      by auto
    then obtain es where cfg: "alembic_config w c = (Return cfg, c\<lparr>p_alembic_cfg := Some cfg\<rparr>, es)"
      by (rule alembic_config_Return)
    let ?c0 = "c\<lparr>p_alembic_cfg := Some cfg\<rparr>"
    have c0: "p_script_directory ?c0 = None" "alembic_config w ?c0 = (Return cfg, ?c0, [])"
      using None by (simp_all add: alembic_config_def)
    show ?thesis
    proof (cases "from_config w cfg")
      case (Inl e)
      with None cfg c0 show ?thesis
        by (simp add: script_directory_def action_defs run_defs)
    next
      case (Inr sd)
      with None cfg have "script_directory w c
          = (Return sd, ?c0\<lparr>p_script_directory := Some sd\<rparr>, es @ [Call_from_config cfg])"
        by (simp add: script_directory_def action_defs)
      then show ?thesis
        by (simp add: script_directory_cached run_defs)
    qed
  qed
  then show "outcome (script_directory w (state_after (script_directory w c)))
           = outcome (script_directory w c)"
    and "state_after (script_directory w (state_after (script_directory w c)))
           = state_after (script_directory w c)"
    by simp_all
qed

lemma script_directory_state:
  "p_script_directory c \<noteq> None \<Longrightarrow> state_after (script_directory w c) = c"
  "(state_after (script_directory w c))\<lparr>p_alembic_cfg := p_alembic_cfg c,
       p_script_directory := p_script_directory c\<rparr> = c"
  by (auto simp: run_defs script_directory_def alembic_config_def action_defs Let_def
      split: option.splits sum.splits)

lemma find_pending_migrations_state:
  "state_after (find_pending_migrations w l d c) = state_after (script_directory w c)"
  by (auto simp: find_pending_migrations_def action_defs run_defs split: prod.splits result.splits sum.splits)

lemma find_pending_migrations_outcome:
  "outcome (find_pending_migrations w l d c) =
     (case outcome (script_directory w c) of
        Return sd \<Rightarrow> (case iterate_revisions sd l d of
            Inr iterator \<Rightarrow> Return (True, length [revision r. Some r \<leftarrow> iterator])
          | Inl ex \<Rightarrow> if ex = RangeNotAncestorError \<or> ex = ResolutionError
                     then Return (False, 0) else Raise ex)
      | Raise ex \<Rightarrow> if ex = RangeNotAncestorError \<or> ex = ResolutionError
                     then Return (False, 0) else Raise ex
      | Exit n \<Rightarrow> Exit n)"
  by (auto simp: find_pending_migrations_def action_defs run_defs split: prod.splits result.splits sum.splits)

text \<open>The ways \<^verbatim>\<open>evaluate_migration_alignment\<close> can end, each with what it reported last.\<close>

lemma evaluate_verdicts:
  "outcome (evaluate_migration_alignment w c) = Exit 0
      \<and> classification (events (evaluate_migration_alignment w c)) = Some UpToDate
   \<or> outcome (evaluate_migration_alignment w c) = Exit 0
      \<and> (\<exists>n. classification (events (evaluate_migration_alignment w c)) = Some (PendingCount n))
   \<or> outcome (evaluate_migration_alignment w c) = Exit 1
      \<and> classification (events (evaluate_migration_alignment w c)) = Some Unreconcilable
   \<or> outcome (evaluate_migration_alignment w c) = Exit 1
      \<and> classification (events (evaluate_migration_alignment w c)) = Some FatalPrecondition
   \<or> (\<exists>e. outcome (evaluate_migration_alignment w c) = Raise e)
      \<and> classification (events (evaluate_migration_alignment w c)) = None"
proof (cases "outcome (script_directory w c)")
  case (Return sd)
  then obtain c1 es1 where run: "script_directory w c = (Return sd, c1, es1)"
    and eng: "engine c1 = engine c" and cached: "p_script_directory c1 = Some sd"
    and es1: "\<forall>e\<in>set es1. is_configuration e"
    by (rule script_directory_Return)
  have again: "script_directory w c1 = (Return sd, c1, [])"
    using cached by (rule script_directory_cached)
  show ?thesis
    using es1
    by (auto simp: evaluate_migration_alignment_def get_latest_migration_version_def
          get_db_version_def find_pending_migrations_def action_defs run again eng run_defs
          Let_def
        split: option.splits sum.splits)
next
  case (Raise e)
  then obtain c1 es1 where run: "script_directory w c = (Raise e, c1, es1)"
    and es1: "\<forall>e\<in>set es1. is_configuration e"
    by (rule script_directory_Raise)
  show ?thesis
    using es1
    by (auto simp: evaluate_migration_alignment_def get_latest_migration_version_def
          action_defs run run_defs classification_before_configuration)
next
  case (Exit n)
  then show ?thesis
    by (simp add: script_directory_not_Exit)
qed

text \<open>The two helpers of the constructor.\<close>

lemma get_database_engine_cases:
  "(\<exists>e. get_database_engine w u s = (Return e, s, [Print Msg_creating_engine, Call_create_engine u,
        Print Msg_engine_created, Call_engine_connect, Print Msg_engine_connected])
        \<and> create_engine w u = Inr e \<and> engine_connect w e = Inr ())
   \<or> (\<exists>es. get_database_engine w u s = (Exit 1, s, es) \<and> (\<forall>p. Call_os_path_exists p \<notin> set es)
        \<and> (\<forall>e. create_engine w u = Inr e \<longrightarrow> engine_connect w e \<noteq> Inr ()))"
  by (auto simp: get_database_engine_def action_defs split: sum.splits)

lemma validate_db_inputs_returns:
  "\<exists>v es. validate_db_inputs w s = (Return v, s, es)"
  by (auto simp: validate_db_inputs_def action_defs split: sum.splits)

section \<open>Facts about the accessor of the specification\<close>

text \<open>A found sequence means the origin is an ancestor of something on the stack.\<close>

lemma walk_sound:
  "fst (walk rs origin stack visited steps) = Sequence path
   \<Longrightarrow> \<exists>(x, p) \<in> set stack. (x, origin) \<in> (predecessor_edges rs)\<^sup>*"
proof (induction rs origin stack visited steps rule: walk.induct)
  case (1 rs origin visited steps)
  then show ?case by simp
next
  case (2 rs origin x p stack visited steps)
  show ?case
  proof (cases "x = origin")
    case True
    then show ?thesis by auto
  next
    case False
    show ?thesis
    proof (cases "x \<in> set visited \<or> lookup rs x = None")
      case True
      with False 2 show ?thesis by auto
    next
      case expand: False
      with False 2 obtain y q
        where "(y, q) \<in> set (map (\<lambda>p'. (p', x # p)) (predecessors_of rs x) @ stack)"
          and reach: "(y, origin) \<in> (predecessor_edges rs)\<^sup>*"
        by fastforce
      then consider "y \<in> set (predecessors_of rs x)" | "(y, q) \<in> set stack"
        by auto
      then show ?thesis
      proof cases
        case 1
        then have "(x, y) \<in> predecessor_edges rs"
          by (simp add: predecessor_edges_def)
        from this reach have "(x, origin) \<in> (predecessor_edges rs)\<^sup>*"
          by (rule converse_rtrancl_into_rtrancl)
        then show ?thesis by auto
      next
        case 2
        with reach show ?thesis by auto
      qed
    qed
  qed
qed

lemma traverse_unreachable:
  assumes "lookup (revisions g) current = None
           \<or> (head, current) \<notin> (predecessor_edges (revisions g))\<^sup>*"
  shows "traverseBetween g current head = Unreachable"
proof (cases "lookup (revisions g) current = None")
  case True
  then show ?thesis by (simp add: traverseBetween_def)
next
  case False
  with assms have nr: "(head, current) \<notin> (predecessor_edges (revisions g))\<^sup>*" by simp
  have "fst (walk (revisions g) current [(head, [])] [] 0) \<noteq> Sequence path" for path
    using walk_sound[of "revisions g" current "[(head, [])]" "[]" 0 path] nr by auto
  then show ?thesis
    by (cases "fst (walk (revisions g) current [(head, [])] [] 0)") (auto simp: traverseBetween_def)
qed

lemma walk_path_nonempty:
  "fst (walk rs origin stack visited steps) = Sequence path
   \<Longrightarrow> \<forall>(x, p) \<in> set stack. p = [] \<longrightarrow> x \<noteq> origin \<Longrightarrow> path \<noteq> []"
proof (induction rs origin stack visited steps rule: walk.induct)
  case (1 rs origin visited steps)
  then show ?case by simp
next
  case (2 rs origin x p stack visited steps)
  then show ?case
    by (auto split: if_splits)
qed

lemma traverse_nonempty:
  "traverseBetween g current head = Sequence path \<Longrightarrow> current \<noteq> head \<Longrightarrow> 1 \<le> length path"
  using walk_path_nonempty[of "revisions g" current "[(head, [])]" "[]" 0 path]
  by (cases path) (auto simp: traverseBetween_def split: if_splits)

text \<open>On a linear chain the walk goes down the chain and lists what lies above the origin.\<close>

lemma lookup_chain_after:
  "distinct ids \<Longrightarrow> k < length ids \<Longrightarrow>
   lookup (chain_after prev ids) (ids ! k) =
     Some \<lparr>revision_id = ids ! k,
           predecessors = (if k = 0 then (case prev of None \<Rightarrow> [] | Some p \<Rightarrow> [p])
                           else [ids ! (k - 1)])\<rparr>"
proof (induction ids arbitrary: prev k)
  case Nil
  then show ?case by simp
next
  case (Cons x xs)
  show ?case
  proof (cases k)
    case 0
    then show ?thesis by (simp add: lookup_def)
  next
    case (Suc j)
    with Cons.prems have j: "j < length xs" and ne: "xs ! j \<noteq> x" and d: "distinct xs"
      by auto
    have "lookup (chain_after prev (x # xs)) ((x # xs) ! k)
        = lookup (chain_after (Some x) xs) (xs ! j)"
      using ne Suc by (simp add: lookup_def)
    also have "\<dots> = Some \<lparr>revision_id = xs ! j,
           predecessors = (if j = 0 then [x] else [xs ! (j - 1)])\<rparr>"
      using Cons.IH[OF d j, of "Some x"] by simp
    finally show ?thesis
      using Suc by (cases j) auto
  qed
qed

lemma walk_chain:
  "distinct ids \<Longrightarrow> k < length ids \<Longrightarrow> i \<le> k \<Longrightarrow> set visited \<inter> set (take (Suc k) ids) = {}
   \<Longrightarrow> fst (walk (chain_after None ids) (ids ! i) ((ids ! k, path) # stack) visited steps)
      = Sequence (take (k - i) (drop (Suc i) ids) @ path)"
proof (induction k arbitrary: path visited steps)
  case 0
  then show ?case by simp
next
  case (Suc k)
  show ?case
  proof (cases "i = Suc k")
    case True
    then show ?thesis by simp
  next
    case False
    with Suc.prems have ik: "i \<le> k" and k: "k < length ids" and sk: "Suc k < length ids"
      by auto
    have ne: "ids ! Suc k \<noteq> ids ! i"
      using Suc.prems(1) sk ik by (auto simp: nth_eq_iff_index_eq)
    have "ids ! Suc k \<in> set (take (Suc (Suc k)) ids)"
      using sk by (auto simp: in_set_conv_nth intro!: exI[of _ "Suc k"])
    with Suc.prems(4) have nv: "ids ! Suc k \<notin> set visited"
      by blast
    have "ids ! Suc k \<notin> set (take (Suc k) ids)"
    proof
      assume "ids ! Suc k \<in> set (take (Suc k) ids)"
      then obtain j where "j < Suc k" "ids ! j = ids ! Suc k"
        using sk by (auto simp: in_set_conv_nth)
      with Suc.prems(1) sk show False
        by (auto simp: nth_eq_iff_index_eq)
    qed
    moreover have "set (take (Suc k) ids) \<subseteq> set (take (Suc (Suc k)) ids)"
      by (rule set_take_subset_set_take) simp
    ultimately have disj: "set (ids ! Suc k # visited) \<inter> set (take (Suc k) ids) = {}"
      using Suc.prems(4) by auto
    have lk: "lookup (chain_after None ids) (ids ! Suc k)
        = Some \<lparr>revision_id = ids ! Suc k, predecessors = [ids ! k]\<rparr>"
      using lookup_chain_after[OF Suc.prems(1) sk, of None] by simp
    have "fst (walk (chain_after None ids) (ids ! i) ((ids ! Suc k, path) # stack) visited steps)
        = fst (walk (chain_after None ids) (ids ! i) ((ids ! k, ids ! Suc k # path) # stack)
                 (ids ! Suc k # visited) (Suc steps))"
      using ne nv lk by (simp add: predecessors_of_def)
    also have "\<dots> = Sequence (take (k - i) (drop (Suc i) ids) @ ids ! Suc k # path)"
      by (rule Suc.IH[OF Suc.prems(1) k ik disj])
    also have "take (k - i) (drop (Suc i) ids) @ ids ! Suc k # path
        = take (Suc k - i) (drop (Suc i) ids) @ path"
    proof -
      have "Suc k - i = Suc (k - i)" using ik by simp
      moreover have "k - i < length (drop (Suc i) ids)" using sk ik by simp
      moreover have "drop (Suc i) ids ! (k - i) = ids ! Suc k" using sk ik by simp
      ultimately show ?thesis
        by (simp add: take_Suc_conv_app_nth)
    qed
    finally show ?thesis .
  qed
qed

lemma traverse_chain:
  assumes "distinct ids" "length ids = Suc n" "i \<le> n"
  shows "traverseBetween (linear_chain ids) (ids ! i) (last ids)
     = Sequence (drop (Suc i) ids)"
proof -
  have l: "last ids = ids ! n"
    using assms(2) by (cases ids rule: rev_cases) (auto simp: nth_append)
  have "lookup (chain_after None ids) (ids ! i) \<noteq> None"
    using lookup_chain_after[OF assms(1), of i None] assms by simp
  moreover have "fst (walk (chain_after None ids) (ids ! i) [(ids ! n, [])] [] 0)
      = Sequence (take (n - i) (drop (Suc i) ids) @ [])"
    by (rule walk_chain) (use assms in auto)
  ultimately show ?thesis
    using assms by (simp add: traverseBetween_def linear_chain_def l)
qed

text \<open>No revision is expanded twice, and every step takes an entry that an edge put there.\<close>

lemma walk_expanded:
  "distinct visited \<Longrightarrow> set visited \<subseteq> revision_id ` set rs
   \<Longrightarrow> distinct (expanded (walk rs origin stack visited steps))
     \<and> set (expanded (walk rs origin stack visited steps)) \<subseteq> revision_id ` set rs"
proof (induction rs origin stack visited steps rule: walk.induct)
  case (1 rs origin visited steps)
  then show ?case by (simp add: expanded_def)
next
  case (2 rs origin x path stack visited steps)
  show ?case
  proof (cases "x = origin")
    case True
    with 2 show ?thesis by (simp add: expanded_def)
  next
    case False
    show ?thesis
    proof (cases "x \<in> set visited \<or> lookup rs x = None")
      case True
      with False 2 show ?thesis by simp
    next
      case expand: False
      then obtain r where r: "x \<notin> set visited" "lookup rs x = Some r"
        by auto
      then have "r \<in> set rs" "revision_id r = x"
        by (auto simp: lookup_def find_Some_iff)
      with r 2(3,4) have "distinct (x # visited)" "set (x # visited) \<subseteq> revision_id ` set rs"
        by auto
      with 2(2)[OF False expand] False r show ?thesis by simp
    qed
  qed
qed

lemma walk_steps:
  "steps_taken (walk rs origin stack visited steps)
     + length (edges_walked rs visited)
   \<le> steps + length stack + length (edges_walked rs (expanded (walk rs origin stack visited steps)))"
proof (induction rs origin stack visited steps rule: walk.induct)
  case (1 rs origin visited steps)
  then show ?case by (simp add: expanded_def steps_taken_def)
next
  case (2 rs origin x path stack visited steps)
  show ?case
  proof (cases "x = origin")
    case True
    then show ?thesis by (simp add: expanded_def steps_taken_def)
  next
    case False
    show ?thesis
    proof (cases "x \<in> set visited \<or> lookup rs x = None")
      case True
      with False 2(1) show ?thesis by simp
    next
      case expand: False
      then obtain r where "x \<notin> set visited" "lookup rs x = Some r"
        by auto
      with 2(2)[OF False expand] False show ?thesis
        by (simp add: edges_walked_def)
    qed
  qed
qed

lemma distinct_edges_walked:
  "distinct xs \<Longrightarrow> \<forall>x\<in>set xs. distinct (predecessors_of rs x) \<Longrightarrow> distinct (edges_walked rs xs)"
  by (induction xs) (auto simp: edges_walked_def distinct_map inj_on_def)

lemma length_le_revisions:
  assumes "distinct xs" "set xs \<subseteq> revision_id ` set rs"
  shows "length xs \<le> length rs"
proof -
  have "length xs = card (set xs)"
    using assms(1) by (simp add: distinct_card)
  also have "\<dots> \<le> card (revision_id ` set rs)"
    by (rule card_mono) (use assms(2) in auto)
  also have "\<dots> \<le> card (set rs)"
    by (rule card_image_le) simp
  also have "\<dots> \<le> length rs"
    by (rule card_length)
  finally show ?thesis .
qed

lemma predecessors_of_distinct:
  "distinct (predecessors_of rs x)" if "\<forall>r\<in>set rs. distinct (predecessors r)"
proof (cases "lookup rs x")
  case None
  then show ?thesis by (simp add: predecessors_of_def)
next
  case (Some r)
  then have "r \<in> set rs"
    by (auto simp: lookup_def find_Some_iff)
  with Some show ?thesis
    using that by (simp add: predecessors_of_def)
qed

lemma predecessors_of_Cons:
  "predecessors_of (r # rs) x = (if revision_id r = x then predecessors r else predecessors_of rs x)"
  by (simp add: predecessors_of_def lookup_def)

lemma edges_walked_simps [simp]:
  "edges_walked rs [] = []"
  "edges_walked rs (x # xs) = map (Pair x) (predecessors_of rs x) @ edges_walked rs xs"
  by (simp_all add: edges_walked_def)

lemma edges_walked_other:
  "revision_id r \<notin> set xs \<Longrightarrow> edges_walked (r # rs) xs = edges_walked rs xs"
  by (induction xs) (auto simp: predecessors_of_Cons)

lemma length_edges_walked_Cons:
  "distinct xs \<Longrightarrow> length (edges_walked (r # rs) xs)
     = (if revision_id r \<in> set xs then length (predecessors r) else 0)
       + length (edges_walked rs (removeAll (revision_id r) xs))"
  by (induction xs) (auto simp: predecessors_of_Cons edges_walked_other)

lemma length_edges_walked_le:
  "distinct xs \<Longrightarrow> length (edges_walked rs xs) \<le> sum_list (map (\<lambda>r. length (predecessors r)) rs)"
proof (induction rs arbitrary: xs)
  case Nil
  show ?case by (induction xs) (auto simp: predecessors_of_def lookup_def)
next
  case (Cons r rs)
  have "length (edges_walked rs (removeAll (revision_id r) xs))
      \<le> sum_list (map (\<lambda>r. length (predecessors r)) rs)"
    by (rule Cons.IH) (use Cons.prems in \<open>simp add: distinct_removeAll\<close>)
  then show ?case
    by (cases "revision_id r \<in> set xs")
       (simp_all add: length_edges_walked_Cons[OF Cons.prems])
qed

text \<open>In the branching scenario, C is not among the ancestors of B.\<close>

lemma branch_ancestors_of_B:
  "(''B'', y) \<in> (predecessor_edges (revisions scenario_branch))\<^sup>* \<Longrightarrow> y \<in> {''B'', ''A'', ''base''}"
proof (induction rule: rtrancl_induct)
  case base
  show ?case by simp
next
  case (step y z)
  from step.IH step.hyps(2) show ?case
    by (auto simp: predecessor_edges_def predecessors_of_def lookup_def scenario_branch_def)
qed

section \<open>The branches after the equality test\<close>

lemma classification_last: "es \<noteq> [] \<Longrightarrow> classification es = classification [last es]"
  by (induction es rule: classification.induct) auto

lemma count_yielded [simp]:
  "length [revision r. Some r \<leftarrow> map (\<lambda>i. Some \<lparr>revision = i\<rparr>) path] = length path"
  by (induction path) auto

lemma count_yielded' [simp]:
  "length (concat (map (case_option [] (\<lambda>r. [revision r]) \<circ> (\<lambda>i. Some \<lparr>revision = i\<rparr>)) path))
     = length path"
  by (induction path) auto

lemma find_pending_migrations_loaded:
  assumes "outcome (script_directory w c) = Return sd"
  shows "outcome (find_pending_migrations w l d c) =
     (case iterate_revisions sd l d of
        Inr iterator \<Rightarrow> Return (True, length [revision r. Some r \<leftarrow> iterator])
      | Inl ex \<Rightarrow> if ex = RangeNotAncestorError \<or> ex = ResolutionError
                 then Return (False, 0) else Raise ex)"
  using assms by (simp add: find_pending_migrations_outcome)

lemma evaluate_pending:
  assumes sd: "outcome (script_directory w c) = Return sd"
    and hd: "get_revision sd ''head'' = Inr (Some r)"
    and db: "fetch_version_num w (engine c) = Inr (Some (Some d))"
    and ne: "d \<noteq> revision r"
    and it: "iterate_revisions sd (revision r) d = Inr iterator"
    and k: "k = length [revision r. Some r \<leftarrow> iterator]"
  shows "outcome (evaluate_migration_alignment w c) = Exit 0"
    and "classification (events (evaluate_migration_alignment w c)) = Some (PendingCount k)"
    and "last (events (evaluate_migration_alignment w c)) =
           Print (if k = 1 then Msg_success_one_pending d (revision r)
                  else Msg_success_many_pending d k)"
proof -
  from sd obtain c1 es1 where run: "script_directory w c = (Return sd, c1, es1)"
    and eng: "engine c1 = engine c" and cached: "p_script_directory c1 = Some sd"
    by (rule script_directory_Return)
  have again: "script_directory w c1 = (Return sd, c1, [])"
    using cached by (rule script_directory_cached)
  have "evaluate_migration_alignment w c =
      (Exit 0, c1, [Print Msg_starting_evaluation, Print Msg_retrieving_latest] @ es1 @
        [Call_get_revision ''head'', Print Msg_latest_found, Print Msg_fetching_db_version,
         Call_fetch_version_num, Print Msg_db_version_fetched,
         Print (Msg_latest_version (revision r)), Print (Msg_current_version d),
         Print Msg_revisions_do_not_match, Call_iterate_revisions (revision r) d,
         Print (if k = 1 then Msg_success_one_pending d (revision r)
                else Msg_success_many_pending d k)])"
    using ne
    by (simp add: evaluate_migration_alignment_def get_latest_migration_version_def
          get_db_version_def find_pending_migrations_def action_defs run again hd db eng it k
          Let_def)
  then show "outcome (evaluate_migration_alignment w c) = Exit 0"
    and "classification (events (evaluate_migration_alignment w c)) = Some (PendingCount k)"
    and "last (events (evaluate_migration_alignment w c)) =
           Print (if k = 1 then Msg_success_one_pending d (revision r)
                  else Msg_success_many_pending d k)"
    by (simp_all add: run_defs classification_last)
qed

lemma evaluate_mismatch:
  assumes sd: "outcome (script_directory w c) = Return sd"
    and hd: "get_revision sd ''head'' = Inr (Some r)"
    and db: "fetch_version_num w (engine c) = Inr (Some (Some d))"
    and ne: "d \<noteq> revision r"
    and it: "iterate_revisions sd (revision r) d = Inl ex"
    and ex: "ex = RangeNotAncestorError \<or> ex = ResolutionError"
  shows "outcome (evaluate_migration_alignment w c) = Exit 1"
    and "classification (events (evaluate_migration_alignment w c)) = Some Unreconcilable"
    and "Print (Msg_success_one_pending a b) \<notin> set (events (evaluate_migration_alignment w c))"
    and "Print (Msg_success_many_pending a n) \<notin> set (events (evaluate_migration_alignment w c))"
proof -
  from sd obtain c1 es1 where run: "script_directory w c = (Return sd, c1, es1)"
    and eng: "engine c1 = engine c" and cached: "p_script_directory c1 = Some sd"
    and es1: "\<forall>e\<in>set es1. is_configuration e"
    by (rule script_directory_Return)
  have again: "script_directory w c1 = (Return sd, c1, [])"
    using cached by (rule script_directory_cached)
  have "evaluate_migration_alignment w c =
      (Exit 1, c1, [Print Msg_starting_evaluation, Print Msg_retrieving_latest] @ es1 @
        [Call_get_revision ''head'', Print Msg_latest_found, Print Msg_fetching_db_version,
         Call_fetch_version_num, Print Msg_db_version_fetched,
         Print (Msg_latest_version (revision r)), Print (Msg_current_version d),
         Print Msg_revisions_do_not_match, Call_iterate_revisions (revision r) d,
         Print (Msg_error ex), Print (Msg_version_mismatch d)])"
    using ne ex
    by (simp add: evaluate_migration_alignment_def get_latest_migration_version_def
          get_db_version_def find_pending_migrations_def action_defs run again hd db eng it)
  with configuration_events[OF es1] show "outcome (evaluate_migration_alignment w c) = Exit 1"
    and "classification (events (evaluate_migration_alignment w c)) = Some Unreconcilable"
    and "Print (Msg_success_one_pending a b) \<notin> set (events (evaluate_migration_alignment w c))"
    and "Print (Msg_success_many_pending a n) \<notin> set (events (evaluate_migration_alignment w c))"
    by (auto simp: run_defs)
qed

lemma graph_directory_head:
  "resolveHead g = Some h \<Longrightarrow> get_revision (graph_directory g) ''head'' = Inr (Some \<lparr>revision = h\<rparr>)"
  by (simp add: graph_directory_def)

lemma graph_directory_iterate:
  "iterate_revisions (graph_directory g) upper lower =
     (case traverseBetween g lower upper of
        Sequence path \<Rightarrow> Inr (map (\<lambda>i. Some \<lparr>revision = i\<rparr>) path)
      | Unreachable \<Rightarrow> Inl (if lookup (revisions g) lower = None then ResolutionError
                             else RangeNotAncestorError))"
  by (simp add: graph_directory_def)

section \<open>The equality branch\<close>

text \<open>
  Claim C2. Whatever the script directory is, when the head revision it resolves and the
  version read from the database are the same identifier, \<^verbatim>\<open>evaluate_migration_alignment\<close>
  exits with code 0 on the branch that reports the database as up to date, and the run
  contains no call of \<^verbatim>\<open>iterate_revisions\<close>: \<^verbatim>\<open>find_pending_migrations\<close> is never invoked.
\<close>

theorem up_to_date_without_traversal:
  assumes sd: "outcome (script_directory w c) = Return sd"
    and hd: "get_revision sd ''head'' = Inr (Some r)"
    and db: "fetch_version_num w (engine c) = Inr (Some (Some (revision r)))"
  shows "outcome (evaluate_migration_alignment w c) = Exit 0
     \<and> classification (events (evaluate_migration_alignment w c)) = Some UpToDate
     \<and> filter is_traversal (events (evaluate_migration_alignment w c)) = []"
proof -
  from sd obtain c1 es1 where run: "script_directory w c = (Return sd, c1, es1)"
    and eng: "engine c1 = engine c"
    and es1: "\<forall>e\<in>set es1. is_configuration e"
    by (rule script_directory_Return)
  have "evaluate_migration_alignment w c =
      (Exit 0, c1, [Print Msg_starting_evaluation, Print Msg_retrieving_latest] @ es1 @
        [Call_get_revision ''head'', Print Msg_latest_found, Print Msg_fetching_db_version,
         Call_fetch_version_num, Print Msg_db_version_fetched,
         Print (Msg_latest_version (revision r)), Print (Msg_current_version (revision r)),
         Print Msg_success_up_to_date])"
    by (simp add: evaluate_migration_alignment_def get_latest_migration_version_def
          get_db_version_def action_defs run hd db eng)
  with configuration_events[OF es1] show ?thesis
    by (auto simp: run_defs)
qed

theorem up_to_date_without_traversal_witness:
  "outcome (script_directory (scenario_world scenario_chain ''C'') scenario_checker)
      = Return (graph_directory scenario_chain)
   \<and> get_revision (graph_directory scenario_chain) ''head'' = Inr (Some \<lparr>revision = ''C''\<rparr>)
   \<and> fetch_version_num (scenario_world scenario_chain ''C'') (engine scenario_checker)
      = Inr (Some (Some (revision \<lparr>revision = ''C''\<rparr>)))
   \<and> outcome (evaluate_migration_alignment (scenario_world scenario_chain ''C'') scenario_checker) = Exit 0
   \<and> classification (events (evaluate_migration_alignment (scenario_world scenario_chain ''C'') scenario_checker))
      = Some UpToDate
   \<and> filter is_traversal (events (evaluate_migration_alignment (scenario_world scenario_chain ''C'') scenario_checker)) = []"
proof -
  have sd: "outcome (script_directory (scenario_world scenario_chain ''C'') scenario_checker)
      = Return (graph_directory scenario_chain)"
    by (rule scenario_script_directory)
  have hd: "get_revision (graph_directory scenario_chain) ''head'' = Inr (Some \<lparr>revision = ''C''\<rparr>)"
    by (simp add: scenario_defs)
  have db: "fetch_version_num (scenario_world scenario_chain ''C'') (engine scenario_checker)
      = Inr (Some (Some (revision \<lparr>revision = ''C''\<rparr>)))"
    by (simp add: scenario_defs)
  from sd hd db up_to_date_without_traversal[OF sd hd db] show ?thesis
    by simp
qed

section \<open>No head revision\<close>

text \<open>
  Claim C4. When \<^verbatim>\<open>get_revision("head")\<close> gives no revision, as on an empty migration
  graph, \<^verbatim>\<open>evaluate_migration_alignment\<close> exits with code 1 after the message of the
  missing head: the database version is never fetched, no revisions are iterated, and the
  version-mismatch report of the unreconcilable case is not printed.
\<close>

theorem no_head_is_fatal_before_classification:
  assumes sd: "outcome (script_directory w c) = Return sd"
    and hd: "get_revision sd ''head'' = Inr None"
  shows "outcome (evaluate_migration_alignment w c) = Exit 1
     \<and> classification (events (evaluate_migration_alignment w c)) = Some FatalPrecondition
     \<and> Call_fetch_version_num \<notin> set (events (evaluate_migration_alignment w c))
     \<and> filter is_traversal (events (evaluate_migration_alignment w c)) = []
     \<and> (\<forall>db. Print (Msg_version_mismatch db) \<notin> set (events (evaluate_migration_alignment w c)))"
proof -
  from sd obtain c1 es1 where run: "script_directory w c = (Return sd, c1, es1)"
    and es1: "\<forall>e\<in>set es1. is_configuration e"
    by (rule script_directory_Return)
  have "evaluate_migration_alignment w c =
      (Exit 1, c1, [Print Msg_starting_evaluation, Print Msg_retrieving_latest] @ es1 @
        [Call_get_revision ''head'', Print Msg_no_head_revision, Print Msg_no_head_check_script])"
    by (simp add: evaluate_migration_alignment_def get_latest_migration_version_def
          action_defs run hd)
  with configuration_events[OF es1] show ?thesis
    by (auto simp: run_defs)
qed

theorem no_head_is_fatal_before_classification_witness:
  "outcome (script_directory (scenario_world empty_graph ''A'') scenario_checker)
      = Return (graph_directory empty_graph)
   \<and> get_revision (graph_directory empty_graph) ''head'' = Inr None
   \<and> outcome (evaluate_migration_alignment (scenario_world empty_graph ''A'') scenario_checker) = Exit 1
   \<and> classification (events (evaluate_migration_alignment (scenario_world empty_graph ''A'') scenario_checker))
      = Some FatalPrecondition
   \<and> Call_fetch_version_num \<notin> set (events (evaluate_migration_alignment (scenario_world empty_graph ''A'') scenario_checker))"
proof -
  have sd: "outcome (script_directory (scenario_world empty_graph ''A'') scenario_checker)
      = Return (graph_directory empty_graph)"
    by (rule scenario_script_directory)
  have hd: "get_revision (graph_directory empty_graph) ''head'' = Inr None"
    by (simp add: scenario_defs)
  from sd hd no_head_is_fatal_before_classification[OF sd hd] show ?thesis
    by simp
qed

section \<open>The errors of the traversal\<close>

text \<open>
  Claim C9. \<^verbatim>\<open>find_pending_migrations\<close> never lets \<^verbatim>\<open>RangeNotAncestorError\<close> or
  \<^verbatim>\<open>ResolutionError\<close> reach its caller, and whenever iterating the revisions fails with
  one of the two it returns the pair \<^verbatim>\<open>(False, 0)\<close>.
\<close>

theorem find_pending_migrations_catches_both_errors: "outcome (find_pending_migrations w l d c) \<noteq> Raise RangeNotAncestorError
  \<and> outcome (find_pending_migrations w l d c) \<noteq> Raise ResolutionError
  \<and> (\<forall>sd e. outcome (script_directory w c) = Return sd \<longrightarrow> iterate_revisions sd l d = Inl e
        \<longrightarrow> e = RangeNotAncestorError \<or> e = ResolutionError
        \<longrightarrow> outcome (find_pending_migrations w l d c) = Return (False, 0))"
proof (cases "outcome (script_directory w c)")
  case (Return sd)
  then obtain c1 es1 where run: "script_directory w c = (Return sd, c1, es1)"
    by (rule script_directory_Return)
  show ?thesis
    by (auto simp: find_pending_migrations_def action_defs run run_defs split: sum.splits)
next
  case (Raise e)
  then obtain c1 es1 where run: "script_directory w c = (Raise e, c1, es1)"
    by (rule script_directory_Raise)
  show ?thesis
    by (auto simp: find_pending_migrations_def action_defs run run_defs)
next
  case (Exit n)
  then show ?thesis by (simp add: script_directory_not_Exit)
qed

theorem find_pending_migrations_catches_both_errors_witness:
  "outcome (script_directory (scenario_world scenario_chain ''X'') scenario_checker)
      = Return (graph_directory scenario_chain)
   \<and> iterate_revisions (graph_directory scenario_chain) ''C'' ''X'' = Inl ResolutionError
   \<and> outcome (find_pending_migrations (scenario_world scenario_chain ''X'') ''C'' ''X'' scenario_checker)
      = Return (False, 0)"
proof -
  have sd: "outcome (script_directory (scenario_world scenario_chain ''X'') scenario_checker)
      = Return (graph_directory scenario_chain)"
    by (rule scenario_script_directory)
  have it: "iterate_revisions (graph_directory scenario_chain) ''C'' ''X'' = Inl ResolutionError"
    by (simp add: scenario_defs)
  from sd it find_pending_migrations_catches_both_errors[of "scenario_world scenario_chain ''X''" "''C''" "''X''" scenario_checker]
  show ?thesis
    by blast
qed

section \<open>Exit codes\<close>

text \<open>
  Claim C5. Every run of \<^verbatim>\<open>evaluate_migration_alignment\<close> that reports the database as
  up to date or reports pending migrations exits with code 0, and only such runs do; every
  run that reports a version mismatch or a failed precondition (no head revision, no
  database version, an error while fetching it) exits with code 1, and only such runs do;
  no other exit code occurs, and the method never returns to its caller.
\<close>

theorem exit_code_mapping: 
  "(outcome (evaluate_migration_alignment w c) = Exit 0
      \<longleftrightarrow> classification (events (evaluate_migration_alignment w c)) = Some UpToDate
          \<or> (\<exists>n. classification (events (evaluate_migration_alignment w c)) = Some (PendingCount n)))
 \<and> (outcome (evaluate_migration_alignment w c) = Exit 1
      \<longleftrightarrow> classification (events (evaluate_migration_alignment w c)) = Some Unreconcilable
          \<or> classification (events (evaluate_migration_alignment w c)) = Some FatalPrecondition)
 \<and> (\<forall>n. outcome (evaluate_migration_alignment w c) = Exit n \<longrightarrow> n = 0 \<or> n = 1)
 \<and> (\<forall>x. outcome (evaluate_migration_alignment w c) \<noteq> Return x)"
  using evaluate_verdicts[of w c]
  by auto

theorem exit_code_mapping_witness:
  "classification (events (evaluate_migration_alignment (scenario_world scenario_chain ''A'') scenario_checker))
     = Some (PendingCount 2)
   \<and> outcome (evaluate_migration_alignment (scenario_world scenario_chain ''A'') scenario_checker) = Exit 0
   \<and> classification (events (evaluate_migration_alignment (scenario_world scenario_branch ''C'') scenario_checker))
     = Some Unreconcilable
   \<and> outcome (evaluate_migration_alignment (scenario_world scenario_branch ''C'') scenario_checker) = Exit 1"
proof -
  have a: "classification (events (evaluate_migration_alignment (scenario_world scenario_chain ''A'') scenario_checker))
     = Some (PendingCount 2)"
    by (simp add: method_defs action_defs run_defs scenario_defs Let_def)
  have d: "classification (events (evaluate_migration_alignment (scenario_world scenario_branch ''C'') scenario_checker))
     = Some Unreconcilable"
    by (simp add: method_defs action_defs run_defs scenario_defs Let_def)
  from a d exit_code_mapping[of "scenario_world scenario_chain ''A''" scenario_checker]
    exit_code_mapping[of "scenario_world scenario_branch ''C''" scenario_checker]
  show ?thesis
    by simp
qed

section \<open>Repeated invocations\<close>

text \<open>
  Claim C8, as stated, fails twice. On a checker that has not used its script directory
  yet, the first invocation of \<^verbatim>\<open>find_pending_migrations\<close> assigns \<^verbatim>\<open>_alembic_cfg\<close> and
  \<^verbatim>\<open>_script_directory\<close>, the attributes the classification reads the graph through. And
  on a database URL with a percent sign, setting the second option raises after the
  \<^verbatim>\<open>Config\<close> has been assigned: the first invocation ends in that exception, the second
  finds the \<^verbatim>\<open>Config\<close> in place and returns \<^verbatim>\<open>(True, 2)\<close>.
\<close>

theorem find_pending_migrations_changes_checker:
  "p_script_directory scenario_checker = None
   \<and> p_script_directory (state_after (find_pending_migrations (scenario_world scenario_chain ''A'') ''C'' ''A'' scenario_checker))
       = Some (graph_directory scenario_chain)
   \<and> state_after (find_pending_migrations (scenario_world scenario_chain ''A'') ''C'' ''A'' scenario_checker)
       \<noteq> scenario_checker
   \<and> outcome (find_pending_migrations (scenario_world scenario_chain ''A'') ''C'' ''A''
         (scenario_checker\<lparr>db_url := ''sqlite:///a%25b.db''\<rparr>))
       = Raise (OtherException ''ValueError: invalid interpolation syntax'')
   \<and> outcome (find_pending_migrations (scenario_world scenario_chain ''A'') ''C'' ''A''
         (state_after (find_pending_migrations (scenario_world scenario_chain ''A'') ''C'' ''A''
            (scenario_checker\<lparr>db_url := ''sqlite:///a%25b.db''\<rparr>))))
       = Return (True, 2)"
proof -
  let ?w = "scenario_world scenario_chain ''A''"
  let ?c = "scenario_checker\<lparr>db_url := ''sqlite:///a%25b.db''\<rparr>"
  have "p_script_directory (state_after (find_pending_migrations ?w ''C'' ''A'' scenario_checker))
       = Some (graph_directory scenario_chain)"
    by (simp add: find_pending_migrations_state)
       (simp add: run_defs script_directory_def alembic_config_def Config_def action_defs Let_def
          scenario_world_def scenario_checker_def)
  moreover have "p_script_directory scenario_checker = None"
    by (simp add: scenario_checker_def)
  moreover have "outcome (find_pending_migrations ?w ''C'' ''A'' ?c)
       = Raise (OtherException ''ValueError: invalid interpolation syntax'')"
    by (simp add: method_defs Config_def action_defs run_defs scenario_defs Let_def)
  moreover have "outcome (find_pending_migrations ?w ''C'' ''A''
         (state_after (find_pending_migrations ?w ''C'' ''A'' ?c))) = Return (True, 2)"
    by (simp add: method_defs Config_def action_defs run_defs scenario_defs Let_def)
  ultimately show ?thesis
    by auto
qed

text \<open>
  Claim C8, amended. On a checker whose script directory is loaded, or whose configuration
  is in place or gets built without \<^verbatim>\<open>set_main_option\<close> raising, two invocations of
  \<^verbatim>\<open>find_pending_migrations\<close> with the same arguments give the same result, and the second
  leaves the checker as the first left it. On any checker, an invocation changes no
  attribute other than the two lazily filled ones, and changes nothing at all once the
  script directory is loaded; the loaded script directory, and so the revision graph, is
  never replaced.
\<close>

theorem repeated_find_pending_migrations:
  "((p_script_directory c \<noteq> None \<or> (\<exists>cfg. outcome (alembic_config w c) = Return cfg)) \<longrightarrow>
      outcome (find_pending_migrations w l d (state_after (find_pending_migrations w l d c)))
        = outcome (find_pending_migrations w l d c)
    \<and> state_after (find_pending_migrations w l d (state_after (find_pending_migrations w l d c)))
        = state_after (find_pending_migrations w l d c))
   \<and> (p_script_directory c \<noteq> None \<longrightarrow> state_after (find_pending_migrations w l d c) = c)
   \<and> (state_after (find_pending_migrations w l d c))\<lparr>p_alembic_cfg := p_alembic_cfg c,
         p_script_directory := p_script_directory c\<rparr> = c"
  by (simp add: find_pending_migrations_state find_pending_migrations_outcome
        script_directory_state script_directory_again)

theorem repeated_find_pending_migrations_witness:
  "outcome (alembic_config (scenario_world scenario_chain ''A'') scenario_checker)
      = Return \<lparr>script_location = Some ''migrations'', sqlalchemy_url = Some ''sqlite:///app.db''\<rparr>
   \<and> p_script_directory (state_after (find_pending_migrations (scenario_world scenario_chain ''A'') ''C'' ''A'' scenario_checker)) \<noteq> None
   \<and> state_after (find_pending_migrations (scenario_world scenario_chain ''A'') ''C'' ''A''
        (state_after (find_pending_migrations (scenario_world scenario_chain ''A'') ''C'' ''A'' scenario_checker)))
      = state_after (find_pending_migrations (scenario_world scenario_chain ''A'') ''C'' ''A'' scenario_checker)
   \<and> outcome (find_pending_migrations (scenario_world scenario_chain ''A'') ''C'' ''A''
        (state_after (find_pending_migrations (scenario_world scenario_chain ''A'') ''C'' ''A'' scenario_checker)))
      = Return (True, 2)"
proof -
  let ?w = "scenario_world scenario_chain ''A''"
  have built: "outcome (alembic_config ?w scenario_checker)
      = Return \<lparr>script_location = Some ''migrations'', sqlalchemy_url = Some ''sqlite:///app.db''\<rparr>"
    by (simp add: alembic_config_def Config_def run_defs scenario_world_def scenario_checker_def)
  have first: "outcome (find_pending_migrations ?w ''C'' ''A'' scenario_checker) = Return (True, 2)"
    by (simp add: method_defs Config_def action_defs run_defs scenario_defs Let_def)
  have loaded: "p_script_directory (state_after (find_pending_migrations ?w ''C'' ''A'' scenario_checker)) \<noteq> None"
    by (simp add: find_pending_migrations_state)
       (simp add: run_defs script_directory_def alembic_config_def Config_def action_defs Let_def
          scenario_world_def scenario_checker_def)
  from built first loaded
    repeated_find_pending_migrations[of scenario_checker ?w "''C''" "''A''"]
  show ?thesis
    by simp
qed

section \<open>Validation in the constructor\<close>

text \<open>
  Claim C10. The constructor raises \<^verbatim>\<open>ValueError\<close> exactly when \<^verbatim>\<open>db_url\<close> is
  \<^verbatim>\<open>None\<close> or empty and \<^verbatim>\<open>_validate_db_inputs\<close> returns a message. With a non-empty
  \<^verbatim>\<open>db_url\<close> the validation does not run (the migrations path is never looked up),
  and whatever the other arguments are, a database engine that can be created and
  connected gives a checker.
\<close>

theorem db_url_skips_validation:
  "(fst (init w url type host port user password name path) = Raise (ValueError err)
      \<longleftrightarrow> \<not> truthy url \<and>
          outcome (validate_db_inputs w \<lparr>db_type = type, db_host = host, db_port = port,
             db_user = user, db_password = password, db_name = name, migrations_path = path\<rparr>)
            = Return (Some err))
   \<and> (truthy url \<longrightarrow>
        (\<forall>p. Call_os_path_exists p \<notin> set (snd (init w url type host port user password name path)))
      \<and> (\<forall>e. create_engine w (str url) = Inr e \<longrightarrow> engine_connect w e = Inr () \<longrightarrow>
            fst (init w url type host port user password name path) =
              Return \<lparr>db_type = type, db_host = host, db_port = port, db_user = user,
                db_password = password, db_name = name, migrations_path = path,
                db_url = str url, engine = e, p_alembic_cfg = None, p_script_directory = None\<rparr>))"
proof -
  let ?self = "\<lparr>db_type = type, db_host = host, db_port = port,
             db_user = user, db_password = password, db_name = name, migrations_path = path\<rparr>"
  obtain v es where val: "validate_db_inputs w ?self = (Return v, ?self, es)"
    using validate_db_inputs_returns by blast
  show ?thesis
  proof (cases "truthy url")
    case True
    then obtain u where u: "url = Some u" "u \<noteq> []"
      by (auto simp: truthy_def split: option.splits)
    show ?thesis
      using get_database_engine_cases[of w u ?self] u
      by (auto simp: init_def Let_def action_defs truthy_def str_def)
  next
    case False
    show ?thesis
    proof (cases v)
      case None
      then show ?thesis
        using get_database_engine_cases[of w "get_database_url ?self" ?self] False val
        by (auto simp: init_def Let_def action_defs truthy_def run_defs split: option.splits)
    next
      case (Some a)
      then show ?thesis
        using False val
        by (auto simp: init_def Let_def action_defs truthy_def run_defs split: option.splits)
    qed
  qed
qed

theorem db_url_skips_validation_witness:
  "truthy (Some ''sqlite:///app.db'')
   \<and> fst (init ((scenario_world empty_graph [])\<lparr>os_path_exists := \<lambda>p. Inr False\<rparr>)
        (Some ''sqlite:///app.db'') None None None None None None (Some ''nowhere''))
      = Return \<lparr>db_type = None, db_host = None, db_port = None, db_user = None,
                db_password = None, db_name = None, migrations_path = Some ''nowhere'',
                db_url = ''sqlite:///app.db'', engine = Engine ''sqlite:///app.db'',
                p_alembic_cfg = None, p_script_directory = None\<rparr>
   \<and> fst (init ((scenario_world empty_graph [])\<lparr>os_path_exists := \<lambda>p. Inr False\<rparr>)
        None (Some ''sqlite'') None None None None (Some ''app.db'') (Some ''nowhere''))
      = Raise (ValueError (Migrations_path_does_not_exist (Some ''nowhere'')))"
proof -
  let ?w = "(scenario_world empty_graph [])\<lparr>os_path_exists := \<lambda>p. Inr False\<rparr>"
  have t: "truthy (Some ''sqlite:///app.db'')" and f: "\<not> truthy None"
    by (simp_all add: truthy_def)
  have e: "create_engine ?w (str (Some ''sqlite:///app.db'')) = Inr (Engine ''sqlite:///app.db'')"
    "engine_connect ?w (Engine ''sqlite:///app.db'') = Inr ()"
    by (simp_all add: scenario_world_def str_def)
  have v: "outcome (validate_db_inputs ?w \<lparr>db_type = Some ''sqlite'', db_host = None, db_port = None,
             db_user = None, db_password = None, db_name = Some ''app.db'', migrations_path = Some ''nowhere''\<rparr>)
            = Return (Some (Migrations_path_does_not_exist (Some ''nowhere'')))"
    by (simp add: validate_db_inputs_def action_defs run_defs truthy_def scenario_world_def)
  from t f e v
    db_url_skips_validation[of ?w "Some ''sqlite:///app.db''" None None None None None None "Some ''nowhere''"]
    db_url_skips_validation[of ?w None "Some ''sqlite''" None None None None "Some ''app.db''" "Some ''nowhere''"
           "Migrations_path_does_not_exist (Some ''nowhere'')"]
  show ?thesis
    by (simp add: str_def)
qed

section \<open>Pending migrations on a linear chain\<close>

text \<open>
  Claim C1. Over the accessor of the specification: on a linear chain of revisions
  \<open>r\<^sub>0, \<dots>, r\<^sub>n\<close> with pairwise different identifiers, head \<open>r\<^sub>n\<close> and the database at
  \<open>r\<^sub>i\<close> for some \<open>i < n\<close>, \<^verbatim>\<open>find_pending_migrations\<close> returns \<^verbatim>\<open>(True, n - i)\<close>, and
  \<^verbatim>\<open>evaluate_migration_alignment\<close> exits with code 0 reporting \<open>n - i\<close> pending
  migrations. On the chain base, A, B, C with the database at A that is 2: the head is
  counted, the current revision is not.
\<close>

theorem linear_chain_pending_count:
  assumes ids: "distinct ids" "length ids = Suc n" "i < n"
    and sd: "outcome (script_directory w c) = Return (graph_directory (linear_chain ids))"
    and db: "fetch_version_num w (engine c) = Inr (Some (Some (ids ! i)))"
  shows "outcome (find_pending_migrations w (last ids) (ids ! i) c) = Return (True, n - i)
     \<and> outcome (evaluate_migration_alignment w c) = Exit 0
     \<and> classification (events (evaluate_migration_alignment w c)) = Some (PendingCount (n - i))"
proof -
  have tr: "traverseBetween (linear_chain ids) (ids ! i) (last ids) = Sequence (drop (Suc i) ids)"
    by (rule traverse_chain) (use ids in auto)
  have len: "length (drop (Suc i) ids) = n - i"
    using ids by simp
  have it: "iterate_revisions (graph_directory (linear_chain ids)) (last ids) (ids ! i)
      = Inr (map (\<lambda>i. Some \<lparr>revision = i\<rparr>) (drop (Suc i) ids))"
    by (simp add: graph_directory_iterate tr)
  have "ids \<noteq> []" using ids by auto
  then have "resolveHead (linear_chain ids) = Some (last ids)"
    by (cases ids) (auto simp: resolveHead_def linear_chain_def)
  then have hd: "get_revision (graph_directory (linear_chain ids)) ''head''
      = Inr (Some \<lparr>revision = last ids\<rparr>)"
    by (rule graph_directory_head)
  have "last ids = ids ! n"
    using ids(2) by (cases ids rule: rev_cases) (auto simp: nth_append)
  then have ne: "ids ! i \<noteq> revision \<lparr>revision = last ids\<rparr>"
    using ids by (auto simp: nth_eq_iff_index_eq)
  have it': "iterate_revisions (graph_directory (linear_chain ids)) (revision \<lparr>revision = last ids\<rparr>) (ids ! i)
      = Inr (map (\<lambda>i. Some \<lparr>revision = i\<rparr>) (drop (Suc i) ids))"
    using it by simp
  have "outcome (find_pending_migrations w (last ids) (ids ! i) c) = Return (True, n - i)"
    using len by (simp add: find_pending_migrations_loaded[OF sd] it)
  moreover have "outcome (evaluate_migration_alignment w c) = Exit 0"
    by (rule evaluate_pending(1)[OF sd hd db ne it' refl])
  moreover have "classification (events (evaluate_migration_alignment w c)) = Some (PendingCount (n - i))"
    using evaluate_pending(2)[OF sd hd db ne it' refl] len by simp
  ultimately show ?thesis by simp
qed

theorem linear_chain_pending_count_witness:
  "distinct [''base'', ''A'', ''B'', ''C''] \<and> length [''base'', ''A'', ''B'', ''C''] = Suc 3 \<and> (1::nat) < 3
   \<and> outcome (script_directory (scenario_world (linear_chain [''base'', ''A'', ''B'', ''C'']) ''A'') scenario_checker)
       = Return (graph_directory (linear_chain [''base'', ''A'', ''B'', ''C'']))
   \<and> fetch_version_num (scenario_world (linear_chain [''base'', ''A'', ''B'', ''C'']) ''A'') (engine scenario_checker)
       = Inr (Some (Some ''A''))
   \<and> linear_chain [''base'', ''A'', ''B'', ''C''] = scenario_chain
   \<and> outcome (find_pending_migrations (scenario_world (linear_chain [''base'', ''A'', ''B'', ''C'']) ''A'')
        ''C'' ''A'' scenario_checker) = Return (True, 2)
   \<and> outcome (evaluate_migration_alignment (scenario_world (linear_chain [''base'', ''A'', ''B'', ''C'']) ''A'')
        scenario_checker) = Exit 0
   \<and> classification (events (evaluate_migration_alignment
        (scenario_world (linear_chain [''base'', ''A'', ''B'', ''C'']) ''A'') scenario_checker))
       = Some (PendingCount 2)"
proof -
  let ?ids = "[''base'', ''A'', ''B'', ''C'']"
  let ?w = "scenario_world (linear_chain ?ids) ''A''"
  have ids: "distinct ?ids" "length ?ids = Suc 3" "(1::nat) < 3"
    by simp_all
  have sd: "outcome (script_directory ?w scenario_checker) = Return (graph_directory (linear_chain ?ids))"
    by (rule scenario_script_directory)
  have db: "fetch_version_num ?w (engine scenario_checker) = Inr (Some (Some (?ids ! 1)))"
    by (simp add: scenario_world_def)
  have same: "linear_chain ?ids = scenario_chain"
    by (simp add: linear_chain_def scenario_chain_def)
  from ids sd db same linear_chain_pending_count[OF ids sd db] show ?thesis
    by simp
qed

section \<open>Versions that are no ancestor of the head\<close>

text \<open>
  Claim C3. Over the accessor of the specification: when the version in the database is
  not a revision of the graph, or is one from which no chain of predecessor edges leads
  back from the head (a sibling branch, a descendant of the head),
  \<^verbatim>\<open>find_pending_migrations\<close> returns \<^verbatim>\<open>(False, 0)\<close> and
  \<^verbatim>\<open>evaluate_migration_alignment\<close> exits with code 1 reporting the version mismatch; no
  count of pending migrations is ever printed.
\<close>

theorem unreachable_current_is_unreconcilable:
  assumes sd: "outcome (script_directory w c) = Return (graph_directory g)"
    and hd: "resolveHead g = Some head"
    and known: "lookup (revisions g) head \<noteq> None"
    and db: "fetch_version_num w (engine c) = Inr (Some (Some current))"
    and un: "lookup (revisions g) current = None
             \<or> (head, current) \<notin> (predecessor_edges (revisions g))\<^sup>*"
  shows "outcome (find_pending_migrations w head current c) = Return (False, 0)
     \<and> outcome (evaluate_migration_alignment w c) = Exit 1
     \<and> classification (events (evaluate_migration_alignment w c)) = Some Unreconcilable
     \<and> (\<forall>a b. Print (Msg_success_one_pending a b) \<notin> set (events (evaluate_migration_alignment w c)))
     \<and> (\<forall>a n. Print (Msg_success_many_pending a n) \<notin> set (events (evaluate_migration_alignment w c)))"
proof -
  have tr: "traverseBetween g current head = Unreachable"
    using un by (rule traverse_unreachable)
  define ex where "ex = (if lookup (revisions g) current = None then ResolutionError
                         else RangeNotAncestorError)"
  have ex: "ex = RangeNotAncestorError \<or> ex = ResolutionError"
    by (simp add: ex_def)
  have it: "iterate_revisions (graph_directory g) head current = Inl ex"
    by (simp add: graph_directory_iterate tr ex_def)
  have hd': "get_revision (graph_directory g) ''head'' = Inr (Some \<lparr>revision = head\<rparr>)"
    using hd by (rule graph_directory_head)
  have ne: "current \<noteq> revision \<lparr>revision = head\<rparr>"
    using un known by auto
  have it': "iterate_revisions (graph_directory g) (revision \<lparr>revision = head\<rparr>) current = Inl ex"
    using it by simp
  have "outcome (find_pending_migrations w head current c) = Return (False, 0)"
    using ex by (auto simp: find_pending_migrations_loaded[OF sd] it)
  then show ?thesis
    using evaluate_mismatch[OF sd hd' db ne it' ex] by simp
qed

theorem unreachable_current_is_unreconcilable_witness:
  "outcome (script_directory (scenario_world scenario_chain ''X'') scenario_checker)
       = Return (graph_directory scenario_chain)
   \<and> resolveHead scenario_chain = Some ''C''
   \<and> lookup (revisions scenario_chain) ''C'' \<noteq> None
   \<and> lookup (revisions scenario_chain) ''X'' = None
   \<and> outcome (find_pending_migrations (scenario_world scenario_chain ''X'') ''C'' ''X'' scenario_checker)
       = Return (False, 0)
   \<and> outcome (evaluate_migration_alignment (scenario_world scenario_chain ''X'') scenario_checker) = Exit 1
   \<and> classification (events (evaluate_migration_alignment (scenario_world scenario_chain ''X'') scenario_checker))
       = Some Unreconcilable
   \<and> resolveHead scenario_branch = Some ''B''
   \<and> lookup (revisions scenario_branch) ''B'' \<noteq> None
   \<and> lookup (revisions scenario_branch) ''C'' \<noteq> None
   \<and> (''B'', ''C'') \<notin> (predecessor_edges (revisions scenario_branch))\<^sup>*
   \<and> outcome (evaluate_migration_alignment (scenario_world scenario_branch ''C'') scenario_checker) = Exit 1
   \<and> classification (events (evaluate_migration_alignment (scenario_world scenario_branch ''C'') scenario_checker))
       = Some Unreconcilable"
proof -
  have sd: "outcome (script_directory (scenario_world g v) scenario_checker) = Return (graph_directory g)"
    for g v by (rule scenario_script_directory)
  have db: "fetch_version_num (scenario_world g v) (engine scenario_checker) = Inr (Some (Some v))"
    for g v by (simp add: scenario_world_def)
  have hc: "resolveHead scenario_chain = Some ''C''" and kc: "lookup (revisions scenario_chain) ''C'' \<noteq> None"
    and ux: "lookup (revisions scenario_chain) ''X'' = None"
    by (simp_all add: scenario_defs)
  have hb: "resolveHead scenario_branch = Some ''B''" and kb: "lookup (revisions scenario_branch) ''B'' \<noteq> None"
    and cb: "lookup (revisions scenario_branch) ''C'' \<noteq> None"
    by (simp_all add: scenario_defs)
  have nr: "(''B'', ''C'') \<notin> (predecessor_edges (revisions scenario_branch))\<^sup>*"
    using branch_ancestors_of_B[of "''C''"] by auto
  from hc kc ux hb kb cb nr
    unreachable_current_is_unreconcilable[OF sd hc kc db disjI1[OF ux]] unreachable_current_is_unreconcilable[OF sd hb kb db disjI2[OF nr]]
  show ?thesis
    by (simp add: sd)
qed

section \<open>One pending migration or several\<close>

text \<open>
  Claim C6. Over the accessor of the specification: when the database version differs
  from the head and the traversal gives a sequence of length \<open>k\<close>, then \<open>k\<close> is at least 1,
  \<^verbatim>\<open>evaluate_migration_alignment\<close> exits with code 0 and reports \<open>k\<close> pending migrations,
  and \<open>k = 1\<close> and \<open>k > 1\<close> differ in the message printed only.
\<close>

theorem pending_count_one_or_many:
  assumes sd: "outcome (script_directory w c) = Return (graph_directory g)"
    and hd: "resolveHead g = Some head"
    and db: "fetch_version_num w (engine c) = Inr (Some (Some current))"
    and ne: "current \<noteq> head"
    and tr: "traverseBetween g current head = Sequence path"
  shows "1 \<le> length path
     \<and> outcome (evaluate_migration_alignment w c) = Exit 0
     \<and> classification (events (evaluate_migration_alignment w c)) = Some (PendingCount (length path))
     \<and> last (events (evaluate_migration_alignment w c)) =
         Print (if length path = 1 then Msg_success_one_pending current head
                else Msg_success_many_pending current (length path))"
proof -
  have hd': "get_revision (graph_directory g) ''head'' = Inr (Some \<lparr>revision = head\<rparr>)"
    using hd by (rule graph_directory_head)
  have ne': "current \<noteq> revision \<lparr>revision = head\<rparr>"
    using ne by simp
  have it: "iterate_revisions (graph_directory g) (revision \<lparr>revision = head\<rparr>) current
      = Inr (map (\<lambda>i. Some \<lparr>revision = i\<rparr>) path)"
    by (simp add: graph_directory_iterate tr)
  have k: "length path = length [revision r. Some r \<leftarrow> map (\<lambda>i. Some \<lparr>revision = i\<rparr>) path]"
    by simp
  from tr ne have "1 \<le> length path"
    by (rule traverse_nonempty)
  then show ?thesis
    using evaluate_pending[OF sd hd' db ne' it k] by simp
qed

theorem pending_count_one_or_many_witness:
  "outcome (script_directory (scenario_world scenario_chain ''B'') scenario_checker)
       = Return (graph_directory scenario_chain)
   \<and> resolveHead scenario_chain = Some ''C''
   \<and> fetch_version_num (scenario_world scenario_chain ''B'') (engine scenario_checker) = Inr (Some (Some ''B''))
   \<and> ''B'' \<noteq> ''C''
   \<and> traverseBetween scenario_chain ''B'' ''C'' = Sequence [''C'']
   \<and> outcome (evaluate_migration_alignment (scenario_world scenario_chain ''B'') scenario_checker) = Exit 0
   \<and> last (events (evaluate_migration_alignment (scenario_world scenario_chain ''B'') scenario_checker))
       = Print (Msg_success_one_pending ''B'' ''C'')
   \<and> traverseBetween scenario_chain ''A'' ''C'' = Sequence [''B'', ''C'']
   \<and> outcome (evaluate_migration_alignment (scenario_world scenario_chain ''A'') scenario_checker) = Exit 0
   \<and> last (events (evaluate_migration_alignment (scenario_world scenario_chain ''A'') scenario_checker))
       = Print (Msg_success_many_pending ''A'' 2)"
proof -
  have sd: "outcome (script_directory (scenario_world g v) scenario_checker) = Return (graph_directory g)"
    for g v by (rule scenario_script_directory)
  have db: "fetch_version_num (scenario_world g v) (engine scenario_checker) = Inr (Some (Some v))"
    for g v by (simp add: scenario_world_def)
  have hc: "resolveHead scenario_chain = Some ''C''"
    by (simp add: scenario_defs)
  have ne: "''B'' \<noteq> ''C''" "''A'' \<noteq> ''C''"
    by simp_all
  have t1: "traverseBetween scenario_chain ''B'' ''C'' = Sequence [''C'']"
    and t2: "traverseBetween scenario_chain ''A'' ''C'' = Sequence [''B'', ''C'']"
    by (simp_all add: scenario_defs)
  from hc ne t1 t2 pending_count_one_or_many[OF sd hc db ne(1) t1] pending_count_one_or_many[OF sd hc db ne(2) t2]
  show ?thesis
    by (simp add: sd db)
qed

section \<open>The traversal is finite\<close>

text \<open>
  Claim C7. The traversal of the specification's accessor is a total function, on cyclic
  graphs as on any other: it expands no revision twice and only revisions of the graph, so
  at most as many as the graph has; it takes at most one step more than the predecessor
  references of the revisions it expanded, which are at most those of the whole graph; where
  no revision lists a predecessor twice, it walks no edge twice; and
  \<^verbatim>\<open>find_pending_migrations\<close> over it always returns a pair.
\<close>

theorem traversal_is_bounded:
  "distinct (expanded (walk (revisions g) origin [(target, [])] [] 0))
   \<and> set (expanded (walk (revisions g) origin [(target, [])] [] 0)) \<subseteq> revision_id ` set (revisions g)
   \<and> length (expanded (walk (revisions g) origin [(target, [])] [] 0)) \<le> length (revisions g)
   \<and> steps_taken (walk (revisions g) origin [(target, [])] [] 0)
       \<le> 1 + length (edges_walked (revisions g) (expanded (walk (revisions g) origin [(target, [])] [] 0)))
   \<and> length (edges_walked (revisions g) (expanded (walk (revisions g) origin [(target, [])] [] 0)))
       \<le> sum_list (map (\<lambda>r. length (predecessors r)) (revisions g))
   \<and> ((\<forall>r\<in>set (revisions g). distinct (predecessors r)) \<longrightarrow>
        distinct (edges_walked (revisions g) (expanded (walk (revisions g) origin [(target, [])] [] 0))))
   \<and> (outcome (script_directory w c) = Return (graph_directory g) \<longrightarrow>
        (\<exists>found n. outcome (find_pending_migrations w target origin c) = Return (found, n)))"
proof -
  let ?w = "walk (revisions g) origin [(target, [])] [] 0"
  have e: "distinct (expanded ?w)" "set (expanded ?w) \<subseteq> revision_id ` set (revisions g)"
    using walk_expanded[of "[]" "revisions g" origin "[(target, [])]" 0] by simp_all
  moreover from e have "length (expanded ?w) \<le> length (revisions g)"
    by (rule length_le_revisions)
  moreover have "steps_taken ?w \<le> 1 + length (edges_walked (revisions g) (expanded ?w))"
    using walk_steps[of "revisions g" origin "[(target, [])]" "[]" 0]
    by simp
  moreover have "length (edges_walked (revisions g) (expanded ?w))
      \<le> sum_list (map (\<lambda>r. length (predecessors r)) (revisions g))"
    using e(1) by (rule length_edges_walked_le)
  moreover have "distinct (edges_walked (revisions g) (expanded ?w))"
    if "\<forall>r\<in>set (revisions g). distinct (predecessors r)"
    using e(1) that by (intro distinct_edges_walked) (auto simp: predecessors_of_distinct)
  moreover have "\<exists>found n. outcome (find_pending_migrations w target origin c) = Return (found, n)"
    if "outcome (script_directory w c) = Return (graph_directory g)"
    by (cases "traverseBetween g origin target")
       (auto simp: find_pending_migrations_loaded[OF that] graph_directory_iterate)
  ultimately show ?thesis
    by blast
qed

theorem traversal_is_bounded_witness:
  "list_all (\<lambda>r. distinct (predecessors r)) (revisions scenario_cycle)
   \<and> outcome (script_directory (scenario_world scenario_cycle ''Z'') scenario_checker)
       = Return (graph_directory scenario_cycle)
   \<and> walk (revisions scenario_cycle) ''Z'' [(''A'', [])] [] 0 = (Unreachable, [''B'', ''A''], 3)
   \<and> distinct (edges_walked (revisions scenario_cycle)
        (expanded (walk (revisions scenario_cycle) ''Z'' [(''A'', [])] [] 0)))
   \<and> outcome (find_pending_migrations (scenario_world scenario_cycle ''Z'') ''A'' ''Z''
         scenario_checker) = Return (False, 0)"
proof -
  have d: "\<forall>r\<in>set (revisions scenario_cycle). distinct (predecessors r)"
    by (simp add: scenario_cycle_def)
  have sd: "outcome (script_directory (scenario_world scenario_cycle ''Z'') scenario_checker)
       = Return (graph_directory scenario_cycle)"
    by (rule scenario_script_directory)
  have w: "walk (revisions scenario_cycle) ''Z'' [(''A'', [])] [] 0 = (Unreachable, [''B'', ''A''], 3)"
    by (simp add: scenario_cycle_def lookup_def predecessors_of_def)
  have r: "outcome (find_pending_migrations (scenario_world scenario_cycle ''Z'') ''A'' ''Z''
         scenario_checker) = Return (False, 0)"
    by (simp add: method_defs action_defs run_defs scenario_defs Let_def)
  from d sd w
    traversal_is_bounded[of scenario_cycle "''Z''" "''A''" "scenario_world scenario_cycle ''Z''"
      scenario_checker]
  show ?thesis
    using r by (auto simp: list_all_iff)
qed

end
